theory Spec2Isabelle
  imports Complex_Main
begin

section \<open>Data model\<close>

text \<open>
  The notebook works on \<open>xarray\<close> tensors of 64-bit floats. A float is idealised here as
  a real number, one of the two infinities, or NaN (which is also how \<open>xarray\<close> marks a
  missing value); rounding is not modelled.
\<close>

datatype fl = NaN | NInf | Fin real | PInf

text \<open>The comparison \<open>x > y\<close> of two floats: false as soon as one side is NaN.\<close>

fun fgt :: "fl \<Rightarrow> fl \<Rightarrow> bool" where
  "fgt NaN _ = False"
| "fgt _ NaN = False"
| "fgt NInf _ = False"
| "fgt (Fin x) NInf = True"
| "fgt (Fin x) (Fin y) = (y < x)"
| "fgt (Fin x) PInf = False"
| "fgt PInf PInf = False"
| "fgt PInf _ = True"

text \<open>
  Arithmetic on floats, with the rules of IEEE 754 for NaN and the infinities. There is a
  single zero: the sign of a zero is not modelled, and a finite non-zero value divided by
  zero takes the sign of the dividend.
\<close>

fun fneg :: "fl \<Rightarrow> fl" where
  "fneg NaN = NaN"
| "fneg NInf = PInf"
| "fneg PInf = NInf"
| "fneg (Fin x) = Fin (- x)"

fun fadd :: "fl \<Rightarrow> fl \<Rightarrow> fl" where
  "fadd NaN _ = NaN"
| "fadd _ NaN = NaN"
| "fadd (Fin x) (Fin y) = Fin (x + y)"
| "fadd PInf NInf = NaN"
| "fadd NInf PInf = NaN"
| "fadd PInf _ = PInf"
| "fadd _ PInf = PInf"
| "fadd NInf _ = NInf"
| "fadd _ NInf = NInf"

definition fsub :: "fl \<Rightarrow> fl \<Rightarrow> fl" where
  "fsub x y = fadd x (fneg y)"

fun fsgn :: "fl \<Rightarrow> int" where
  "fsgn NaN = 0"
| "fsgn NInf = - 1"
| "fsgn PInf = 1"
| "fsgn (Fin x) = (if x < 0 then - 1 else if x = 0 then 0 else 1)"

definition signed_inf :: "int \<Rightarrow> fl" where
  "signed_inf s = (if s = 0 then NaN else if 0 < s then PInf else NInf)"

fun fmul :: "fl \<Rightarrow> fl \<Rightarrow> fl" where
  "fmul NaN _ = NaN"
| "fmul _ NaN = NaN"
| "fmul (Fin x) (Fin y) = Fin (x * y)"
| "fmul x y = signed_inf (fsgn x * fsgn y)"

fun fdiv :: "fl \<Rightarrow> fl \<Rightarrow> fl" where
  "fdiv NaN _ = NaN"
| "fdiv _ NaN = NaN"
| "fdiv (Fin x) (Fin y) = (if y = 0 then signed_inf (fsgn (Fin x)) else Fin (x / y))"
| "fdiv (Fin x) _ = Fin 0"
| "fdiv NInf (Fin y) = (if y < 0 then PInf else NInf)"
| "fdiv PInf (Fin y) = (if y < 0 then NInf else PInf)"
| "fdiv _ _ = NaN"

text \<open>\<open>np.maximum\<close> and \<open>np.minimum\<close>: NaN as soon as one side is NaN.\<close>

definition fmax :: "fl \<Rightarrow> fl \<Rightarrow> fl" where
  "fmax x y = (if x = NaN \<or> y = NaN then NaN else if fgt y x then y else x)"

definition fmin :: "fl \<Rightarrow> fl \<Rightarrow> fl" where
  "fmin x y = (if x = NaN \<or> y = NaN then NaN else if fgt x y then y else x)"

definition fsum :: "fl list \<Rightarrow> fl" where
  "fsum xs = foldr fadd xs (Fin 0)"

type_synonym asset = string
type_synonym field = string
type_synonym series = "fl list"

text \<open>
  The Price Series \<open>data\<close>: a tensor indexed by (field, time, asset). Times are the
  positions \<open>0 ..< ntime\<close> of the (sorted) time coordinate; \<open>assets\<close> is
  \<open>data.coords["asset"].values\<close>.
\<close>

record data =
  ntime :: nat
  assets :: "asset list"
  cell :: "field \<Rightarrow> nat \<Rightarrow> asset \<Rightarrow> fl"

text \<open>\<open>data.sel(field=f)\<close> read for one asset: the series over the whole time axis.\<close>

definition sel :: "data \<Rightarrow> field \<Rightarrow> asset \<Rightarrow> series" where
  "sel d f a = map (\<lambda>t. cell d f t a) [0 ..< ntime d]"

text \<open>Reading a series at a time position; a position the series does not have is missing.\<close>

definition at_time :: "series \<Rightarrow> nat \<Rightarrow> fl" where
  "at_time xs t = (if t < length xs then xs ! t else NaN)"

text \<open>The Price Series restricted to the times \<open>\<le> t\<close>.\<close>

definition truncate_to :: "data \<Rightarrow> nat \<Rightarrow> data" where
  "truncate_to d t = d\<lparr>ntime := min (ntime d) (Suc t)\<rparr>"

text \<open>A one-asset Price Series holding the given close prices, every other cell missing.\<close>

definition closes :: "asset \<Rightarrow> series \<Rightarrow> data" where
  "closes a xs =
     \<lparr>ntime = length xs, assets = [a],
      cell = (\<lambda>f t b. if f = ''close'' \<and> b = a then at_time xs t else NaN)\<rparr>"

section \<open>Label Generator\<close>

text \<open>
  Modelled from the spec: \<open>qnta.shift\<close> of the external indicator library
  ("shift-by-n"). The series is moved by \<open>k\<close> positions along time, forwards for a
  positive \<open>k\<close> and backwards for a negative one, and the positions left without a
  source value are missing.
\<close>

definition shift :: "series \<Rightarrow> int \<Rightarrow> series" where
  "shift xs k =
     (if 0 \<le> k then take (length xs) (replicate (nat k) NaN @ xs)
      else drop (nat (- k)) xs @ replicate (min (nat (- k)) (length xs)) NaN)"

definition class_positive :: fl where
  "class_positive = Fin 1"

definition class_negative :: fl where
  "class_negative = Fin 0"

text \<open>
  \<open>get_target_classes\<close>, read for one asset. \<open>xr.where(cond, 1, 0)\<close> chooses between
  the two classes position by position.
\<close>

definition get_target_classes :: "data \<Rightarrow> asset \<Rightarrow> series" where
  "get_target_classes d a =
     (let price_current = sel d ''close'' a;
          price_future = shift price_current (- 1)
      in map2 (\<lambda>fu cu. if fgt fu cu then class_positive else class_negative)
           price_future price_current)"

section \<open>Feature Extractor\<close>

text \<open>
  The indicator functions of \<open>qnt.ta\<close> and the float division of \<open>numpy\<close> are external
  to the notebook; \<open>get_features\<close> takes them as a parameter. Each indicator maps the
  series of one asset to a series; \<open>macd\<close> returns (line, signal, histogram) and
  \<open>stochastic\<close> returns (k, d). The library the notebook runs with is \<open>qnta\<close> below.
\<close>

record lib =
  roc :: "series \<Rightarrow> nat \<Rightarrow> series"
  lwma :: "series \<Rightarrow> nat \<Rightarrow> series"
  macd :: "series \<Rightarrow> nat \<Rightarrow> nat \<Rightarrow> nat \<Rightarrow> series \<times> series \<times> series"
  tr :: "series \<Rightarrow> series \<Rightarrow> series \<Rightarrow> series"
  stochastic :: "series \<Rightarrow> series \<Rightarrow> series \<Rightarrow> nat \<Rightarrow> series \<times> series"
  rsi :: "series \<Rightarrow> nat \<Rightarrow> series"
  true_divide :: "fl \<Rightarrow> fl \<Rightarrow> fl"

text \<open>
  Modelled from the spec: the period \<open>qnta.rsi\<close> uses when the caller gives none, as
  the notebook does ("standard 14-period relative strength index").
\<close>

definition rsi_periods :: nat where
  "rsi_periods = 14"

subsection \<open>The indicator library\<close>

text \<open>
  The change from \<open>y\<close> to \<open>x\<close> in percent.
\<close>

definition percent_change :: "fl \<Rightarrow> fl \<Rightarrow> fl" where
  "percent_change x y = fmul (Fin 100) (fsub (fdiv x y) (Fin 1))"

text \<open>
  Modelled from the spec: \<open>qnta.roc\<close>, the rate of change over \<open>p\<close> periods: the
  percent change of each value against the value \<open>p\<close> steps earlier, missing during the
  first \<open>p\<close> steps.
\<close>

definition qnta_roc :: "series \<Rightarrow> nat \<Rightarrow> series" where
  "qnta_roc xs p = map2 percent_change xs (shift xs (int p))"

text \<open>
  A rolling window of \<open>p\<close> periods: at each time, \<open>f\<close> of the last \<open>p\<close> values up to
  and including that time, oldest first; missing while fewer than \<open>p\<close> values are there
  (the warm-up the spec speaks of).
\<close>

definition rolling :: "nat \<Rightarrow> (fl list \<Rightarrow> fl) \<Rightarrow> series \<Rightarrow> series" where
  "rolling p f xs =
     map (\<lambda>t. if Suc t < p then NaN else f (take p (drop (Suc t - p) xs))) [0 ..< length xs]"

text \<open>
  The linearly weighted mean of a window: the oldest value has weight 1, the newest the
  largest weight.
\<close>

definition weighted_mean :: "fl list \<Rightarrow> fl" where
  "weighted_mean w =
     fdiv (fsum (map2 (\<lambda>i x. fmul (Fin (real (Suc i))) x) [0 ..< length w] w))
          (Fin (real (length w * Suc (length w)) / 2))"

definition mean :: "fl list \<Rightarrow> fl" where
  "mean w = fdiv (fsum w) (Fin (real (length w)))"

fun highest :: "fl list \<Rightarrow> fl" where
  "highest [] = NaN"
| "highest (x # xs) = fold fmax xs x"

fun lowest :: "fl list \<Rightarrow> fl" where
  "lowest [] = NaN"
| "lowest (x # xs) = fold fmin xs x"

text \<open>
  Modelled from the spec: \<open>qnta.lwma\<close>, the \<open>p\<close>-period weighted moving average.
\<close>

definition qnta_lwma :: "series \<Rightarrow> nat \<Rightarrow> series" where
  "qnta_lwma xs p = rolling p weighted_mean xs"

text \<open>
  An exponential moving average with smoothing factor \<open>k\<close>, run along the series with
  the number of values seen and the current average: the first \<open>p\<close> values present are
  averaged plainly, every later one moves the average by \<open>k\<close> times its distance; a
  missing input is passed over and gives a missing output, as does the warm-up.
\<close>

fun ema_run :: "real \<Rightarrow> nat \<Rightarrow> nat \<Rightarrow> fl \<Rightarrow> series \<Rightarrow> series" where
  "ema_run k p cnt v [] = []"
| "ema_run k p cnt v (x # xs) =
     (if x = NaN then NaN # ema_run k p cnt v xs
      else
        (let v' = (if cnt < p then fadd v (fdiv x (Fin (real p)))
                   else fadd v (fmul (Fin k) (fsub x v)))
         in (if Suc cnt < p then NaN else v') # ema_run k p (Suc cnt) v' xs))"

text \<open>
  The exponential moving average of \<open>p\<close> periods, with the usual factor \<open>2 / (p + 1)\<close>,
  and Wilder's, with the factor \<open>1 / p\<close>.
\<close>

definition ema :: "series \<Rightarrow> nat \<Rightarrow> series" where
  "ema xs p = ema_run (2 / (real p + 1)) p 0 (Fin 0) xs"

definition wilder_ma :: "series \<Rightarrow> nat \<Rightarrow> series" where
  "wilder_ma xs p = ema_run (1 / real p) p 0 (Fin 0) xs"

text \<open>
  Modelled from the spec: \<open>qnta.macd\<close>, the MACD components: the line is the fast
  average less the slow one, the signal line is the average of the line, the histogram
  is their difference.
\<close>

definition qnta_macd :: "series \<Rightarrow> nat \<Rightarrow> nat \<Rightarrow> nat \<Rightarrow> series \<times> series \<times> series" where
  "qnta_macd xs fast slow sig =
     (let line = map2 fsub (ema xs fast) (ema xs slow);
          signal = ema line sig;
          hist = map2 fsub line signal
      in (line, signal, hist))"

text \<open>
  The true range of a bar: the highest of the high and the previous close, less the
  lowest of the low and the previous close.
\<close>

definition true_range :: "fl \<Rightarrow> fl \<Rightarrow> fl \<Rightarrow> fl" where
  "true_range h l pc = fsub (fmax h pc) (fmin l pc)"

text \<open>
  Modelled from the spec: \<open>qnta.tr\<close>, the true range.
\<close>

definition qnta_tr :: "series \<Rightarrow> series \<Rightarrow> series \<Rightarrow> series" where
  "qnta_tr h l c = map2 (\<lambda>(hh, ll) pc. true_range hh ll pc) (zip h l) (shift c 1)"

text \<open>
  The position of the close within the range from the lowest low to the highest high, in
  percent.
\<close>

definition percent_k :: "fl \<Rightarrow> fl \<Rightarrow> fl \<Rightarrow> fl" where
  "percent_k c hh ll = fmul (Fin 100) (fdiv (fsub c ll) (fsub hh ll))"

text \<open>
  Modelled from the spec: \<open>qnta.stochastic\<close>, the stochastic oscillator of \<open>p\<close>
  periods: \<open>k\<close> over the highest high and the lowest low of the window, and \<open>d\<close>, its
  smoothing by a 3-period mean.
\<close>

definition qnta_stochastic :: "series \<Rightarrow> series \<Rightarrow> series \<Rightarrow> nat \<Rightarrow> series \<times> series" where
  "qnta_stochastic h l c p =
     (let hh = rolling p highest h;
          ll = rolling p lowest l;
          k = map2 (\<lambda>x (u, v). percent_k x u v) c (zip hh ll);
          d = rolling 3 mean k
      in (k, d))"

text \<open>
  The index \<open>100 - 100 / (1 + u / v)\<close> of an average gain \<open>u\<close> against an average loss
  \<open>v\<close>.
\<close>

definition strength_index :: "fl \<Rightarrow> fl \<Rightarrow> fl" where
  "strength_index u v = fsub (Fin 100) (fdiv (Fin 100) (fadd (Fin 1) (fdiv u v)))"

text \<open>
  Modelled from the spec: \<open>qnta.rsi\<close>, the relative strength index of \<open>p\<close> periods:
  the gains and the losses from one step to the next, each smoothed by Wilder's average.
\<close>

definition qnta_rsi :: "series \<Rightarrow> nat \<Rightarrow> series" where
  "qnta_rsi xs p =
     (let ch = map2 fsub xs (shift xs 1);
          up = map (\<lambda>x. fmax x (Fin 0)) ch;
          down = map (\<lambda>x. fmax (fneg x) (Fin 0)) ch
      in map2 strength_index (wilder_ma up p) (wilder_ma down p))"

text \<open>
  Modelled from the spec: the indicator library \<open>qnt.ta\<close>, which is not part of the
  notebook, with the indicators above; the division is that of floats.
\<close>

definition qnta :: lib where
  "qnta = \<lparr>roc = qnta_roc, lwma = qnta_lwma, macd = qnta_macd, tr = qnta_tr,
           stochastic = qnta_stochastic, rsi = qnta_rsi, true_divide = fdiv\<rparr>"

subsection \<open>The notebook's own steps\<close>

text \<open>\<open>ffill("time")\<close>: a missing value takes the last value present before it.\<close>

fun ffill_from :: "fl \<Rightarrow> series \<Rightarrow> series" where
  "ffill_from prev [] = []"
| "ffill_from prev (x # xs) =
     (if x = NaN then prev # ffill_from prev xs else x # ffill_from x xs)"

definition ffill :: "series \<Rightarrow> series" where
  "ffill xs = ffill_from NaN xs"

text \<open>\<open>bfill("time")\<close>: a missing value takes the first value present after it.\<close>

fun bfill :: "series \<Rightarrow> series" where
  "bfill [] = []"
| "bfill (x # xs) = (if x = NaN then at_time (bfill xs) 0 else x) # bfill xs"

definition fillna :: "series \<Rightarrow> fl \<Rightarrow> series" where
  "fillna xs v = map (\<lambda>x. if x = NaN then v else x) xs"

fun np_log :: "fl \<Rightarrow> fl" where
  "np_log NaN = NaN"
| "np_log NInf = NaN"
| "np_log PInf = PInf"
| "np_log (Fin x) = (if x < 0 then NaN else if x = 0 then NInf else Fin (ln x))"

text \<open>
  A feature tensor read for one asset: the channels in the order of the \<open>field\<close>
  index, each with its name.
\<close>

type_synonym features = "(string \<times> series) list"

text \<open>
  \<open>get_features\<close>, read for one asset (\<open>get_features(data).sel(asset=a)\<close>). The source
  applies \<open>qnta.macd\<close> to the whole tensor and selects the field \<open>close\<close> of its
  signal; the indicator works on every (field, asset) series separately. The result of
  \<open>qnta.macd(data.sel(field="close"))\<close> is not used by the source and is left out.
\<close>

definition get_features :: "lib \<Rightarrow> data \<Rightarrow> asset \<Rightarrow> features" where
  "get_features L d a =
     (let close = sel d ''close'' a;
          high = sel d ''high'' a;
          low = sel d ''low'' a;
          trend = roc L (lwma L close 60) 1;
          macd2_signal = (\<lambda>f. fst (snd (macd L (sel d f a) 12 26 9)));
          volatility = tr L high low close;
          volatility = map2 (true_divide L) volatility close;
          volatility = lwma L volatility 14;
          dd = snd (stochastic L high low close 14);
          rsi_c = rsi L close rsi_periods;
          price = fillna (bfill (ffill close)) (Fin 0);
          price = map np_log price;
          momentum = roc L close 14
      in zip [''trend'', ''macd'', ''volatility'', ''stochastic_d'', ''rsi'', ''price'',
              ''momentum'']
             [trend, macd2_signal ''close'', volatility, dd, rsi_c, price, momentum])"

text \<open>\<open>features.sel(field=c)\<close> read at time \<open>t\<close>; \<open>None\<close> when there is no such channel.\<close>

definition feature_at :: "features \<Rightarrow> string \<Rightarrow> nat \<Rightarrow> fl option" where
  "feature_at fs c t = map_option (\<lambda>xs. at_time xs t) (map_of fs c)"

text \<open>
  The contract a library without lookahead meets: an indicator computed on the first
  \<open>n\<close> time steps is the first \<open>n\<close> steps of the indicator computed on the whole series.
\<close>

definition causal_lib :: "lib \<Rightarrow> bool" where
  "causal_lib L \<longleftrightarrow>
     (\<forall>xs p n. roc L (take n xs) p = take n (roc L xs p)) \<and>
     (\<forall>xs p n. lwma L (take n xs) p = take n (lwma L xs p)) \<and>
     (\<forall>xs p q r n. fst (snd (macd L (take n xs) p q r)) = take n (fst (snd (macd L xs p q r)))) \<and>
     (\<forall>h l c n. tr L (take n h) (take n l) (take n c) = take n (tr L h l c)) \<and>
     (\<forall>h l c p n. snd (stochastic L (take n h) (take n l) (take n c) p)
                    = take n (snd (stochastic L h l c p))) \<and>
     (\<forall>xs p n. rsi L (take n xs) p = take n (rsi L xs p))"

text \<open>
  A stand-in for the external library in which every indicator passes its first input
  series through. It serves only to run the pipeline on concrete inputs.
\<close>

definition passthrough :: lib where
  "passthrough =
     \<lparr>roc = (\<lambda>xs p. xs), lwma = (\<lambda>xs p. xs), macd = (\<lambda>xs p q r. (xs, xs, xs)),
      tr = (\<lambda>h l c. h), stochastic = (\<lambda>h l c p. (c, c)), rsi = (\<lambda>xs p. xs),
      true_divide = (\<lambda>x y. x)\<rparr>"

section \<open>The channels in the words of the specification\<close>

text \<open>
  Each channel as the specification describes it, as a function of the time \<open>t\<close> and of
  the cells of the Price Series; to be compared with what \<open>get_features\<close> computes.
\<close>

text \<open>
  A value that is not missing.
\<close>

definition present :: "fl \<Rightarrow> bool" where
  "present v \<longleftrightarrow> v \<noteq> NaN"











text \<open>
  price: the natural logarithm of the close, where a missing close is filled forward
  (the latest close present at or before \<open>t\<close>), else backward (the first close present
  after \<open>t\<close>), else with zero.
\<close>

definition spec_price :: "data \<Rightarrow> asset \<Rightarrow> nat \<Rightarrow> fl" where
  "spec_price d a t =
     np_log
       (case find present (map (\<lambda>i. cell d ''close'' i a) (rev [0 ..< Suc t])) of
          Some v \<Rightarrow> v
        | None \<Rightarrow>
            (case find present (map (\<lambda>i. cell d ''close'' i a) [Suc t ..< ntime d]) of
               Some v \<Rightarrow> v
             | None \<Rightarrow> Fin 0))"


section \<open>Rows, missing values and alignment\<close>

text \<open>The row of a (time, field) slice at time \<open>t\<close>.\<close>

definition row_at :: "features \<Rightarrow> nat \<Rightarrow> fl list" where
  "row_at fs t = map (\<lambda>(c, xs). at_time xs t) fs"

text \<open>
  \<open>dropna("time", "any")\<close> on a (time, field) slice with \<open>n\<close> time steps: the rows
  with no missing value, each with its time.
\<close>

definition dropna :: "nat \<Rightarrow> features \<Rightarrow> (nat \<times> fl list) list" where
  "dropna n fs = filter (\<lambda>(t, row). NaN \<notin> set row) (map (\<lambda>t. (t, row_at fs t)) [0 ..< n])"

text \<open>The same on a series: the values present, each with its time.\<close>

definition dropna_series :: "nat \<Rightarrow> series \<Rightarrow> (nat \<times> fl) list" where
  "dropna_series n xs = filter (\<lambda>(t, x). x \<noteq> NaN) (map (\<lambda>t. (t, at_time xs t)) [0 ..< n])"

text \<open>\<open>xr.align(xs, ys, join="inner")\<close>: both sides restricted to the times they share.\<close>

definition align_inner ::
  "(nat \<times> 'a) list \<Rightarrow> (nat \<times> 'b) list \<Rightarrow> (nat \<times> 'a) list \<times> (nat \<times> 'b) list" where
  "align_inner xs ys =
     (filter (\<lambda>(t, x). t \<in> fst ` set ys) xs, filter (\<lambda>(t, y). t \<in> fst ` set xs) ys)"

section \<open>Model, exceptions and log\<close>

text \<open>
  The exceptions a call into the libraries can raise. \<open>KeyboardInterrupt\<close> is the user's
  interrupt; it is not a subclass of \<open>Exception\<close>, the other two are.
\<close>

datatype exn = KeyboardInterrupt | ValueError | OtherError

text \<open>What \<open>logging.exception\<close> records: the message and the exception being handled.\<close>

type_synonym log = "(string \<times> exn) list"

text \<open>
  The regressor \<open>KNeighborsRegressor\<close> with the training set it holds once fitted.
\<close>

record knn =
  n_neighbors :: nat
  fit_X :: "real list list"
  fit_y :: "real list"

definition get_model :: "nat \<Rightarrow> knn" where
  "get_model k = \<lparr>n_neighbors = k, fit_X = [], fit_y = []\<rparr>"

text \<open>The methods \<open>fit\<close> and \<open>predict\<close> of the regressor are external: parameters.\<close>

type_synonym fit_method = "knn \<Rightarrow> fl list list \<Rightarrow> fl list \<Rightarrow> exn + knn"
type_synonym predict_method = "knn \<Rightarrow> fl list list \<Rightarrow> exn + fl list"

type_synonym models = "asset \<rightharpoonup> knn"

section \<open>Trainer\<close>

text \<open>
  The loop of \<open>train_model\<close> over the assets, on the state (models, log). The bare
  \<open>except:\<close> catches every exception \<open>fit\<close> raises, logs it and goes on to the next
  asset. \<open>get_model()\<close> uses its default of 5 neighbours.
\<close>

fun train_loop ::
  "fit_method \<Rightarrow> lib \<Rightarrow> data \<Rightarrow> asset list \<Rightarrow> models \<times> log \<Rightarrow> exn + models \<times> log" where
  "train_loop fit L d [] (ms, lg) = Inr (ms, lg)"
| "train_loop fit L d (asset_name # rest) (ms, lg) =
     (let target_cur = dropna_series (ntime d) (get_target_classes d asset_name);
          features_cur = dropna (ntime d) (get_features L d asset_name);
          (target_for_learn, feature_for_learn) = align_inner target_cur features_cur
      in if length features_cur < 10 then train_loop fit L d rest (ms, lg)
         else
           (case fit (get_model 5) (map snd feature_for_learn) (map snd target_for_learn) of
              Inr model \<Rightarrow> train_loop fit L d rest (ms(asset_name \<mapsto> model), lg)
            | Inl e \<Rightarrow> train_loop fit L d rest (ms, lg @ [(''model training failed'', e)])))"

definition train_model :: "fit_method \<Rightarrow> lib \<Rightarrow> data \<Rightarrow> exn + models \<times> log" where
  "train_model fit L d = train_loop fit L d (assets d) (Map.empty, [])"

section \<open>Predictor\<close>

text \<open>The Weights Tensor: for each asset, one weight per time step.\<close>

type_synonym weights = "asset \<Rightarrow> fl list"

definition zeros_like :: "data \<Rightarrow> weights" where
  "zeros_like d = (\<lambda>a. replicate (ntime d) (Fin 0))"

text \<open>
  \<open>weights.loc[dict(asset=a, time=ts)] = ps\<close>: the values are written at the given
  times of the asset's column. Values that do not match the times in number are refused
  (\<open>ValueError\<close>), and so is a time the column does not have (\<open>KeyError\<close>, one of the
  other errors).
\<close>

definition assign :: "weights \<Rightarrow> asset \<Rightarrow> nat list \<Rightarrow> fl list \<Rightarrow> exn + weights" where
  "assign w a ts ps =
     (if length ps \<noteq> length ts then Inl ValueError
      else if \<not> list_all (\<lambda>t. t < length (w a)) ts then Inl OtherError
      else Inr (w(a := fold (\<lambda>(t, p) col. col[t := p]) (zip ts ps) (w a))))"

text \<open>The body of the \<open>try\<close> block: predict, then write.\<close>

definition predict_and_write ::
  "predict_method \<Rightarrow> knn \<Rightarrow> (nat \<times> fl list) list \<Rightarrow> weights \<Rightarrow> asset \<Rightarrow> exn + weights" where
  "predict_and_write predict model features_cur w a =
     (case predict model (map snd features_cur) of
        Inl e \<Rightarrow> Inl e
      | Inr ps \<Rightarrow> assign w a (map fst features_cur) ps)"

text \<open>
  The loop of \<open>predict_weights\<close> over the assets, on the state (weights, log).
  \<open>KeyboardInterrupt\<close> is raised again; any other exception is logged and the loop goes
  on to the next asset.
\<close>

fun predict_loop ::
  "predict_method \<Rightarrow> models \<Rightarrow> lib \<Rightarrow> data \<Rightarrow> asset list \<Rightarrow> weights \<times> log
     \<Rightarrow> exn + weights \<times> log" where
  "predict_loop predict ms L d [] (w, lg) = Inr (w, lg)"
| "predict_loop predict ms L d (asset_name # rest) (w, lg) =
     (case ms asset_name of
        None \<Rightarrow> predict_loop predict ms L d rest (w, lg)
      | Some model \<Rightarrow>
          (let features_cur = dropna (ntime d) (get_features L d asset_name)
           in if length features_cur < 1 then predict_loop predict ms L d rest (w, lg)
              else
                (case predict_and_write predict model features_cur w asset_name of
                   Inr w' \<Rightarrow> predict_loop predict ms L d rest (w', lg)
                 | Inl KeyboardInterrupt \<Rightarrow> Inl KeyboardInterrupt
                 | Inl e \<Rightarrow>
                     predict_loop predict ms L d rest
                       (w, lg @ [(''model prediction failed'', e)]))))"

definition predict_weights ::
  "predict_method \<Rightarrow> models \<Rightarrow> lib \<Rightarrow> data \<Rightarrow> exn + weights \<times> log" where
  "predict_weights predict ms L d = predict_loop predict ms L d (assets d) (zeros_like d, [])"

section \<open>The notebook's first training pass\<close>

text \<open>
  The training loop the notebook runs on the whole data before the walk-forward part. It
  differs from \<open>train_model\<close> in its handler, \<open>except Exception\<close>, which lets
  \<open>KeyboardInterrupt\<close> through.
\<close>

fun train_global_loop ::
  "fit_method \<Rightarrow> lib \<Rightarrow> data \<Rightarrow> asset list \<Rightarrow> models \<times> log \<Rightarrow> exn + models \<times> log" where
  "train_global_loop fit L d [] (ms, lg) = Inr (ms, lg)"
| "train_global_loop fit L d (asset_name # rest) (ms, lg) =
     (let target_cur = dropna_series (ntime d) (get_target_classes d asset_name);
          features_cur = dropna (ntime d) (get_features L d asset_name);
          (target_for_learn, feature_for_learn) = align_inner target_cur features_cur
      in if length features_cur < 10 then train_global_loop fit L d rest (ms, lg)
         else
           (case fit (get_model 5) (map snd feature_for_learn) (map snd target_for_learn) of
              Inr model \<Rightarrow> train_global_loop fit L d rest (ms(asset_name \<mapsto> model), lg)
            | Inl KeyboardInterrupt \<Rightarrow> Inl KeyboardInterrupt
            | Inl e \<Rightarrow>
                train_global_loop fit L d rest
                  (ms, lg @ [(''Model training failed for asset: '' @ asset_name, e)])))"

section \<open>The regressor\<close>

text \<open>
  The behaviour of scikit-learn's \<open>KNeighborsRegressor\<close> with its default uniform
  weights and Euclidean metric, as its documentation gives it: \<open>fit\<close> refuses input
  that is empty, ragged or not finite and otherwise stores the training set;
  \<open>predict\<close> refuses rows that are not finite and a training set smaller than
  \<open>n_neighbors\<close>, and otherwise returns, for each row, the mean of the targets of its
  \<open>n_neighbors\<close> nearest training rows.
\<close>

definition all_finite :: "fl list \<Rightarrow> bool" where
  "all_finite xs = list_all (\<lambda>x. case x of Fin r \<Rightarrow> True | _ \<Rightarrow> False) xs"

definition reals :: "fl list \<Rightarrow> real list" where
  "reals xs = map (\<lambda>x. case x of Fin r \<Rightarrow> r | _ \<Rightarrow> 0) xs"

definition knn_fit :: fit_method where
  "knn_fit m X y =
     (if n_neighbors m = 0 \<or> X = [] \<or> length X \<noteq> length y
         \<or> \<not> list_all all_finite X \<or> \<not> all_finite y
      then Inl ValueError
      else Inr (m\<lparr>fit_X := map reals X, fit_y := reals y\<rparr>))"

definition sq_dist :: "real list \<Rightarrow> real list \<Rightarrow> real" where
  "sq_dist p q = sum_list (map2 (\<lambda>u v. (u - v)\<^sup>2) p q)"

definition kneighbors :: "knn \<Rightarrow> real list \<Rightarrow> nat list" where
  "kneighbors m q =
     take (n_neighbors m) (sort_key (\<lambda>i. sq_dist (fit_X m ! i) q) [0 ..< length (fit_X m)])"

definition knn_predict :: predict_method where
  "knn_predict m X =
     (if \<not> list_all all_finite X \<or> length (fit_X m) < n_neighbors m
      then Inl ValueError
      else Inr (map (\<lambda>q. Fin (sum_list (map (\<lambda>i. fit_y m ! i) (kneighbors m (reals q)))
                               / real (n_neighbors m))) X))"

text \<open>
  A \<open>fit\<close> or \<open>predict\<close> that behaves as the regressor does whenever it returns; it
  may raise anything, at any call (an interrupt, an injected failure).
\<close>

definition fit_as_knn :: "fit_method \<Rightarrow> bool" where
  "fit_as_knn fit \<longleftrightarrow> (\<forall>m X y m'. fit m X y = Inr m' \<longrightarrow> knn_fit m X y = Inr m')"

definition predict_as_knn :: "predict_method \<Rightarrow> bool" where
  "predict_as_knn predict \<longleftrightarrow>
     (\<forall>m X ps. predict m X = Inr ps \<longrightarrow> knn_predict m X = Inr ps)"

section \<open>Notions used in the statements\<close>

text \<open>The rows of an asset that survive the missing-value filter.\<close>

definition valid_rows :: "lib \<Rightarrow> data \<Rightarrow> asset \<Rightarrow> (nat \<times> fl list) list" where
  "valid_rows L d a = dropna (ntime d) (get_features L d a)"

text \<open>
  The aligned (feature, label) samples of an asset: missing rows dropped on both sides,
  then the inner join on the shared times.
\<close>

definition aligned :: "lib \<Rightarrow> data \<Rightarrow> asset \<Rightarrow> (nat \<times> fl) list \<times> (nat \<times> fl list) list" where
  "aligned L d a =
     align_inner (dropna_series (ntime d) (get_target_classes d a))
       (dropna (ntime d) (get_features L d a))"

definition aligned_count :: "lib \<Rightarrow> data \<Rightarrow> asset \<Rightarrow> nat" where
  "aligned_count L d a = length (snd (aligned L d a))"

text \<open>
  What the Trainer does with an asset: \<open>None\<close> when it skips the asset for lack of
  data, otherwise the outcome of fitting on the aligned samples.
\<close>

definition fit_outcome :: "fit_method \<Rightarrow> lib \<Rightarrow> data \<Rightarrow> asset \<Rightarrow> (exn + knn) option" where
  "fit_outcome fit L d a =
     (if length (valid_rows L d a) < 10 then None
      else Some (fit (get_model 5) (map snd (snd (aligned L d a)))
                   (map snd (fst (aligned L d a)))))"

text \<open>A weight in the closed interval from 0 to 1.\<close>

definition in_unit :: "fl \<Rightarrow> bool" where
  "in_unit x = (case x of Fin r \<Rightarrow> 0 \<le> r \<and> r \<le> 1 | _ \<Rightarrow> False)"

text \<open>
  A Price Series of \<open>n\<close> time steps in which every field of every asset is 1, except
  that the close of the asset \<open>z\<close> is 0 at time 3.
\<close>

definition flat_prices :: "nat \<Rightarrow> asset list \<Rightarrow> asset \<Rightarrow> data" where
  "flat_prices n as z =
     \<lparr>ntime = n, assets = as,
      cell = (\<lambda>f t a. if f = ''close'' \<and> a = z \<and> t = 3 then Fin 0 else Fin 1)\<rparr>"

text \<open>The models and the log the Trainer's loop ends with.\<close>

definition trained :: "fit_method \<Rightarrow> lib \<Rightarrow> data \<Rightarrow> asset list \<Rightarrow> models \<Rightarrow> models" where
  "trained fit L d as ms =
     (\<lambda>a. if a \<in> set as then (case fit_outcome fit L d a of Some (Inr m) \<Rightarrow> Some m | _ \<Rightarrow> ms a)
          else ms a)"

definition failures :: "fit_method \<Rightarrow> lib \<Rightarrow> data \<Rightarrow> asset list \<Rightarrow> log" where
  "failures fit L d as =
     concat (map (\<lambda>a. case fit_outcome fit L d a of
                        Some (Inl e) \<Rightarrow> [(''model training failed'', e)] | _ \<Rightarrow> []) as)"

text \<open>The feature row of \<open>flat_prices\<close> at time \<open>t\<close> under \<open>passthrough\<close>.\<close>

definition flat_row :: "asset \<Rightarrow> asset \<Rightarrow> nat \<Rightarrow> fl list" where
  "flat_row z a t =
     (if a = z \<and> t = 3 then [Fin 0, Fin 0, Fin 1, Fin 0, Fin 0, NInf, Fin 0]
      else [Fin 1, Fin 1, Fin 1, Fin 1, Fin 1, Fin 0, Fin 1])"

text \<open>
  A regressor fitted on class labels: its targets are 0 or 1, one for each training row.
\<close>

definition fitted_on_classes :: "knn \<Rightarrow> bool" where
  "fitted_on_classes m \<longleftrightarrow>
     0 < n_neighbors m \<and> length (fit_y m) = length (fit_X m) \<and> set (fit_y m) \<subseteq> {0, 1}"

text \<open>
  Two runs of the library that give the same answers wherever \<open>get_features\<close> reads
  them: the library is deterministic.
\<close>

definition lib_agree :: "lib \<Rightarrow> lib \<Rightarrow> bool" where
  "lib_agree L L' \<longleftrightarrow>
     (\<forall>xs p. roc L xs p = roc L' xs p) \<and>
     (\<forall>xs p. lwma L xs p = lwma L' xs p) \<and>
     (\<forall>xs p q r. fst (snd (macd L xs p q r)) = fst (snd (macd L' xs p q r))) \<and>
     (\<forall>h l c. tr L h l c = tr L' h l c) \<and>
     (\<forall>h l c p. snd (stochastic L h l c p) = snd (stochastic L' h l c p)) \<and>
     (\<forall>xs p. rsi L xs p = rsi L' xs p) \<and>
     (\<forall>x y. true_divide L x y = true_divide L' x y)"

text \<open>
  A Price Series of two time steps and two assets: every field of \<open>A\<close> is missing at
  time 0 and 1 at time 1; every field of \<open>B\<close> is missing throughout.
\<close>

definition gap2 :: data where
  "gap2 = \<lparr>ntime = 2, assets = [''A'', ''B''],
            cell = (\<lambda>f t a. if a = ''A'' \<and> t \<noteq> 0 then Fin 1 else NaN)\<rparr>"


section \<open>Properties of the Label Generator\<close>

lemma length_sel [simp]: "length (sel d f a) = ntime d"
  by (simp add: sel_def)

lemma nth_sel [simp]: "t < ntime d \<Longrightarrow> sel d f a ! t = cell d f t a"
  by (simp add: sel_def)

lemma length_shift [simp]: "length (shift xs k) = length xs"
  by (auto simp: shift_def)

lemma nth_shift_back:
  "t < length xs \<Longrightarrow> shift xs (- 1) ! t = (if Suc t < length xs then xs ! Suc t else NaN)"
  by (auto simp: shift_def nth_append min_def)

lemma length_get_target_classes [simp]: "length (get_target_classes d a) = ntime d"
  by (simp add: get_target_classes_def Let_def)

lemma nth_get_target_classes:
  assumes "t < ntime d"
  shows "get_target_classes d a ! t =
           (if Suc t < ntime d \<and> fgt (cell d ''close'' (Suc t) a) (cell d ''close'' t a)
            then Fin 1 else Fin 0)"
  using assms
  by (simp add: get_target_classes_def Let_def nth_shift_back class_positive_def
      class_negative_def)

lemma sel_closes [simp]: "sel (closes a xs) ''close'' a = xs"
  by (rule nth_equalityI) (simp_all add: closes_def sel_def at_time_def)

text \<open>
  C3, as the code has it. The label at time \<open>t\<close> is 1 when the next close is greater than
  the close at \<open>t\<close> and 0 otherwise; at the final time step the shifted price is missing,
  the comparison with a missing value is false, and the label is 0 (it is never missing).
  For the closes 10, 12, 11, 11, 13 the labels are 1, 0, 0, 1, 0.
\<close>

theorem get_target_classes_labels:
  "length (get_target_classes d a) = ntime d \<and>
   (\<forall>t < ntime d. get_target_classes d a ! t =
      (if Suc t < ntime d \<and> fgt (cell d ''close'' (Suc t) a) (cell d ''close'' t a)
       then Fin 1 else Fin 0)) \<and>
   get_target_classes (closes ''A'' [Fin 10, Fin 12, Fin 11, Fin 11, Fin 13]) ''A''
     = [Fin 1, Fin 0, Fin 0, Fin 1, Fin 0]"
proof -
  have "get_target_classes (closes ''A'' [Fin 10, Fin 12, Fin 11, Fin 11, Fin 13]) ''A''
     = [Fin 1, Fin 0, Fin 0, Fin 1, Fin 0]"
    by (simp add: get_target_classes_def Let_def shift_def class_positive_def
        class_negative_def)
  then show ?thesis
    by (simp add: nth_get_target_classes)
qed

theorem get_target_classes_labels_witness:
  "(4::nat) < ntime (closes ''A'' [Fin 10, Fin 12, Fin 11, Fin 11, Fin 13]) \<and>
   get_target_classes (closes ''A'' [Fin 10, Fin 12, Fin 11, Fin 11, Fin 13]) ''A'' ! 4 = Fin 0"
proof -
  have h: "(4::nat) < ntime (closes ''A'' [Fin 10, Fin 12, Fin 11, Fin 11, Fin 13])"
    by (simp add: closes_def)
  from get_target_classes_labels
    [of "closes ''A'' [Fin 10, Fin 12, Fin 11, Fin 11, Fin 13]" "''A''"] h
  show ?thesis by simp
qed

text \<open>The label of the final time step of that sequence is not missing.\<close>

theorem get_target_classes_last_counterexample:
  "get_target_classes (closes ''A'' [Fin 10, Fin 12, Fin 11, Fin 11, Fin 13]) ''A''
     \<noteq> [Fin 1, Fin 0, Fin 0, Fin 1, NaN]"
  by (simp add: get_target_classes_def Let_def shift_def class_positive_def
      class_negative_def)

section \<open>Properties of the Feature Extractor\<close>

lemma sel_truncate_to:
  "t < ntime d \<Longrightarrow> sel (truncate_to d t) f a = take (Suc t) (sel d f a)"
proof -
  assume "t < ntime d"
  then have "min (ntime d) (Suc t) = Suc t" "0 + Suc t \<le> ntime d" by simp_all
  then show ?thesis
    by (simp add: sel_def truncate_to_def take_map del: upt_Suc)
qed

lemma at_time_take [simp]: "at_time (take (Suc t) xs) t = at_time xs t"
  by (simp add: at_time_def)

lemma ffill_from_take: "ffill_from p (take n xs) = take n (ffill_from p xs)"
proof (induction xs arbitrary: n p)
  case Nil
  then show ?case by simp
next
  case (Cons x xs)
  then show ?case by (cases n) simp_all
qed

lemma length_ffill_from [simp]: "length (ffill_from p xs) = length xs"
  by (induction xs arbitrary: p) simp_all

lemma length_bfill [simp]: "length (bfill xs) = length xs"
  by (induction xs) simp_all

lemma bfill_keeps: "t < length xs \<Longrightarrow> xs ! t \<noteq> NaN \<Longrightarrow> bfill xs ! t = xs ! t"
proof (induction xs arbitrary: t)
  case Nil
  then show ?case by simp
next
  case (Cons x xs)
  then show ?case by (cases t) simp_all
qed

lemma ffill_from_present:
  "t < length xs \<Longrightarrow> p \<noteq> NaN \<or> (\<exists>i\<le>t. xs ! i \<noteq> NaN) \<Longrightarrow> ffill_from p xs ! t \<noteq> NaN"
proof (induction xs arbitrary: t p)
  case Nil
  then show ?case by simp
next
  case (Cons x xs)
  show ?case
  proof (cases t)
    case 0
    with Cons.prems show ?thesis by auto
  next
    case (Suc k)
    from Cons.prems Suc have k: "k < length xs" by simp
    show ?thesis
    proof (cases "x = NaN")
      case True
      with Cons.prems(2) Suc have "p \<noteq> NaN \<or> (\<exists>i\<le>k. xs ! i \<noteq> NaN)"
        by (metis Suc_le_mono nth_Cons_0 nth_Cons_Suc not0_implies_Suc)
      from Cons.IH [OF k this] True Suc show ?thesis by simp
    next
      case False
      then have "x \<noteq> NaN \<or> (\<exists>i\<le>k. xs ! i \<noteq> NaN)" by simp
      from Cons.IH [OF k this] False Suc show ?thesis by simp
    qed
  qed
qed

lemma price_no_lookahead:
  assumes t: "t < length xs" and ex: "\<exists>i\<le>t. xs ! i \<noteq> NaN"
  shows "at_time (map np_log (fillna (bfill (ffill (take (Suc t) xs))) (Fin 0))) t
       = at_time (map np_log (fillna (bfill (ffill xs)) (Fin 0))) t"
proof -
  have p: "ffill xs ! t \<noteq> NaN"
    using ffill_from_present [OF t, of NaN] ex by (simp add: ffill_def)
  have full: "bfill (ffill xs) ! t = ffill xs ! t"
    using t p by (simp add: bfill_keeps ffill_def)
  have tr: "ffill (take (Suc t) xs) = take (Suc t) (ffill xs)"
    by (simp add: ffill_def ffill_from_take)
  have "bfill (take (Suc t) (ffill xs)) ! t = take (Suc t) (ffill xs) ! t"
    using t p by (intro bfill_keeps) (simp_all add: ffill_def)
  then have trunc: "bfill (ffill (take (Suc t) xs)) ! t = ffill xs ! t"
    by (simp add: tr)
  show ?thesis
    using t full trunc by (simp add: at_time_def fillna_def ffill_def)
qed

lemma ffill_from_all_missing: "\<forall>x\<in>set xs. x = NaN \<Longrightarrow> ffill_from NaN xs = xs"
  by (induction xs) auto

lemma bfill_all_missing: "\<forall>x\<in>set xs. x = NaN \<Longrightarrow> bfill xs = xs"
  by (induction xs) (auto simp: at_time_def)

lemma price_all_missing:
  assumes "\<forall>x\<in>set xs. x = NaN"
  shows "map np_log (fillna (bfill (ffill xs)) (Fin 0)) = replicate (length xs) NInf"
proof -
  from assms have "fillna (bfill (ffill xs)) (Fin 0) = fillna xs (Fin 0)"
    by (simp add: ffill_def ffill_from_all_missing bfill_all_missing)
  moreover from assms have "map np_log (fillna xs (Fin 0)) = replicate (length xs) NInf"
    by (induction xs) (auto simp: fillna_def)
  ultimately show ?thesis by simp
qed

lemma at_time_price_all_missing:
  assumes "t < length xs" and "\<forall>x\<in>set xs. x = NaN"
  shows "at_time (map np_log (fillna (bfill (ffill xs)) (Fin 0))) t = NInf"
  using assms(1) by (simp only: price_all_missing [OF assms(2)]) (simp add: at_time_def)

lemma price_no_lookahead_all_missing:
  assumes t: "t < length xs" and m: "\<forall>x\<in>set xs. x = NaN"
  shows "at_time (map np_log (fillna (bfill (ffill (take (Suc t) xs))) (Fin 0))) t
       = at_time (map np_log (fillna (bfill (ffill xs)) (Fin 0))) t"
proof -
  from m have m': "\<forall>x\<in>set (take (Suc t) xs). x = NaN" by (auto dest: in_set_takeD)
  from t have t': "t < length (take (Suc t) xs)" by simp
  from at_time_price_all_missing [OF t' m'] at_time_price_all_missing [OF t m]
  show ?thesis by simp
qed

lemma map_of_get_features:
  "map_of (get_features L d a) ''trend'' = Some (roc L (lwma L (sel d ''close'' a) 60) 1)"
  "map_of (get_features L d a) ''macd'' = Some (fst (snd (macd L (sel d ''close'' a) 12 26 9)))"
  "map_of (get_features L d a) ''volatility'' =
     Some (lwma L (map2 (true_divide L) (tr L (sel d ''high'' a) (sel d ''low'' a)
       (sel d ''close'' a)) (sel d ''close'' a)) 14)"
  "map_of (get_features L d a) ''stochastic_d'' =
     Some (snd (stochastic L (sel d ''high'' a) (sel d ''low'' a) (sel d ''close'' a) 14))"
  "map_of (get_features L d a) ''rsi'' = Some (rsi L (sel d ''close'' a) 14)"
  "map_of (get_features L d a) ''price'' =
     Some (map np_log (fillna (bfill (ffill (sel d ''close'' a))) (Fin 0)))"
  "map_of (get_features L d a) ''momentum'' = Some (roc L (sel d ''close'' a) 14)"
  by (simp_all add: get_features_def Let_def rsi_periods_def)

lemma map_of_get_features_other:
  "c \<notin> {''trend'', ''macd'', ''volatility'', ''stochastic_d'', ''rsi'', ''price'', ''momentum''}
   \<Longrightarrow> map_of (get_features L d a) c = None"
  by (simp add: get_features_def Let_def)

lemma map_fst_get_features:
  "map fst (get_features L d a) =
     [''trend'', ''macd'', ''volatility'', ''stochastic_d'', ''rsi'', ''price'', ''momentum'']"
  by (simp add: get_features_def Let_def)

lemma map2_take: "map2 f (take n xs) (take n ys) = take n (map2 f xs ys)"
  by (simp add: take_map take_zip)

text \<open>
  With any indicator library that has no lookahead, a channel read at time \<open>t\<close> is the
  same on the Price Series truncated to the times \<open>\<le> t\<close> as on the full series; for the
  \<open>price\<close> channel provided the close is present at some time \<open>\<le> t\<close>, or missing at
  every time of the full series.
\<close>

lemma causal_lib_no_lookahead:
  assumes L: "causal_lib L" and t: "t < ntime d"
    and p: "c = ''price'' \<longrightarrow>
              (\<exists>i\<le>t. cell d ''close'' i a \<noteq> NaN) \<or> (\<forall>i<ntime d. cell d ''close'' i a = NaN)"
  shows "feature_at (get_features L (truncate_to d t) a) c t
       = feature_at (get_features L d a) c t"
proof -
  let ?n = "Suc t"
  note s = sel_truncate_to [OF t]
  from L have roc: "\<And>xs p. roc L (take ?n xs) p = take ?n (roc L xs p)"
    and lwma: "\<And>xs p. lwma L (take ?n xs) p = take ?n (lwma L xs p)"
    and macd: "\<And>xs p q r. fst (snd (macd L (take ?n xs) p q r))
                 = take ?n (fst (snd (macd L xs p q r)))"
    and tr: "\<And>h l c. tr L (take ?n h) (take ?n l) (take ?n c) = take ?n (tr L h l c)"
    and sto: "\<And>h l c p. snd (stochastic L (take ?n h) (take ?n l) (take ?n c) p)
                 = take ?n (snd (stochastic L h l c p))"
    and rsi: "\<And>xs p. rsi L (take ?n xs) p = take ?n (rsi L xs p)"
    by (simp_all add: causal_lib_def)
  consider "c = ''trend''" | "c = ''macd''" | "c = ''volatility''" | "c = ''stochastic_d''"
    | "c = ''rsi''" | "c = ''price''" | "c = ''momentum''"
    | "c \<notin> {''trend'', ''macd'', ''volatility'', ''stochastic_d'', ''rsi'', ''price'',
        ''momentum''}"
    by (simp only: insert_iff empty_iff) argo
  then show ?thesis
  proof cases
    case 1
    then show ?thesis by (simp add: feature_at_def map_of_get_features s roc lwma)
  next
    case 2
    then show ?thesis by (simp add: feature_at_def map_of_get_features s macd)
  next
    case 3
    have "lwma L (map2 (true_divide L)
            (tr L (take ?n (sel d ''high'' a)) (take ?n (sel d ''low'' a))
               (take ?n (sel d ''close'' a))) (take ?n (sel d ''close'' a))) 14
        = take ?n (lwma L (map2 (true_divide L)
            (tr L (sel d ''high'' a) (sel d ''low'' a) (sel d ''close'' a))
            (sel d ''close'' a)) 14)"
      by (simp only: tr map2_take lwma)
    with 3 show ?thesis
      by (simp only: feature_at_def map_of_get_features s option.map at_time_take)
  next
    case 4
    then show ?thesis by (simp add: feature_at_def map_of_get_features s sto)
  next
    case 5
    then show ?thesis by (simp add: feature_at_def map_of_get_features s rsi)
  next
    case 6
    have "at_time (map np_log (fillna (bfill (ffill (take (Suc t) (sel d ''close'' a))))
          (Fin 0))) t
       = at_time (map np_log (fillna (bfill (ffill (sel d ''close'' a))) (Fin 0))) t"
    proof (cases "\<exists>i\<le>t. cell d ''close'' i a \<noteq> NaN")
      case True
      with t have "\<exists>i\<le>t. sel d ''close'' a ! i \<noteq> NaN" by auto
      with t show ?thesis by (intro price_no_lookahead) simp_all
    next
      case False
      with p 6 have "\<forall>i<ntime d. cell d ''close'' i a = NaN" by blast
      then have "\<forall>x\<in>set (sel d ''close'' a). x = NaN" by (auto simp: sel_def)
      with t show ?thesis by (intro price_no_lookahead_all_missing) simp_all
    qed
    with 6 show ?thesis by (simp add: feature_at_def map_of_get_features s)
  next
    case 7
    then show ?thesis by (simp add: feature_at_def map_of_get_features s roc)
  next
    case 8
    then show ?thesis by (simp add: feature_at_def map_of_get_features_other)
  qed
qed

lemma causal_passthrough: "causal_lib passthrough"
  by (simp add: causal_lib_def passthrough_def)

subsection \<open>The indicators have no lookahead\<close>

lemma shift_take:
  assumes "0 \<le> k"
  shows "shift (take n xs) k = take n (shift xs k)"
  using assms by (auto simp: shift_def min_def)

lemma take_upt_min: "take n [0 ..< m] = [0 ..< min n m]"
  by (cases "n \<le> m") (simp_all add: min_def)

lemma rolling_take: "rolling p f (take n xs) = take n (rolling p f xs)"
proof -
  have "map (\<lambda>t. if Suc t < p then NaN else f (take p (drop (Suc t - p) (take n xs))))
          [0 ..< min (length xs) n]
      = map (\<lambda>t. if Suc t < p then NaN else f (take p (drop (Suc t - p) xs)))
          [0 ..< min (length xs) n]"
  proof (rule map_cong [OF refl])
    fix t
    assume "t \<in> set [0 ..< min (length xs) n]"
    then have t: "Suc t \<le> n" by simp
    show "(if Suc t < p then NaN else f (take p (drop (Suc t - p) (take n xs))))
        = (if Suc t < p then NaN else f (take p (drop (Suc t - p) xs)))"
    proof (cases "Suc t < p")
      case True
      then show ?thesis by simp
    next
      case False
      with t have "min p (n - (Suc t - p)) = p" by simp
      then have "take p (drop (Suc t - p) (take n xs)) = take p (drop (Suc t - p) xs)"
        by (simp add: drop_take)
      then show ?thesis by simp
    qed
  qed
  then show ?thesis
    by (simp add: rolling_def take_map take_upt_min min.commute)
qed

lemma ema_run_take: "ema_run k p cnt v (take n xs) = take n (ema_run k p cnt v xs)"
proof (induction xs arbitrary: n cnt v)
  case Nil
  then show ?case by simp
next
  case (Cons x xs)
  then show ?case by (cases n) (simp_all add: Let_def)
qed

lemma ema_take: "ema (take n xs) p = take n (ema xs p)"
  by (simp add: ema_def ema_run_take)

lemma wilder_ma_take: "wilder_ma (take n xs) p = take n (wilder_ma xs p)"
  by (simp add: wilder_ma_def ema_run_take)

lemma causal_qnta: "causal_lib qnta"
proof -
  have roc: "\<And>xs p n. qnta_roc (take n xs) p = take n (qnta_roc xs p)"
    by (simp add: qnta_roc_def shift_take map2_take)
  have lwma: "\<And>xs p n. qnta_lwma (take n xs) p = take n (qnta_lwma xs p)"
    by (simp add: qnta_lwma_def rolling_take)
  have macd: "\<And>xs p q r n. fst (snd (qnta_macd (take n xs) p q r))
      = take n (fst (snd (qnta_macd xs p q r)))"
    by (simp add: qnta_macd_def Let_def ema_take map2_take)
  have tr: "\<And>h l c n. qnta_tr (take n h) (take n l) (take n c) = take n (qnta_tr h l c)"
    by (simp add: qnta_tr_def shift_take take_map take_zip [symmetric])
  have sto: "\<And>h l c p n. snd (qnta_stochastic (take n h) (take n l) (take n c) p)
      = take n (snd (qnta_stochastic h l c p))"
  proof -
    fix h l c p n
    let ?g = "\<lambda>x (u, v). percent_k x u v"
    have "map2 ?g (take n c) (zip (rolling p highest (take n h)) (rolling p lowest (take n l)))
        = take n (map2 ?g c (zip (rolling p highest h) (rolling p lowest l)))"
      by (simp add: rolling_take take_map take_zip [symmetric])
    then show "snd (qnta_stochastic (take n h) (take n l) (take n c) p)
        = take n (snd (qnta_stochastic h l c p))"
      by (simp only: qnta_stochastic_def Let_def snd_conv rolling_take)
  qed
  have rsi: "\<And>xs p n. qnta_rsi (take n xs) p = take n (qnta_rsi xs p)"
  proof -
    fix xs p n
    have ch: "map2 fsub (take n xs) (shift (take n xs) 1) = take n (map2 fsub xs (shift xs 1))"
      by (simp add: shift_take map2_take)
    show "qnta_rsi (take n xs) p = take n (qnta_rsi xs p)"
      by (simp only: qnta_rsi_def Let_def ch take_map [symmetric] wilder_ma_take map2_take)
  qed
  show ?thesis
    unfolding causal_lib_def qnta_def
    by (simp only: lib.simps roc lwma macd tr sto rsi simp_thms)
qed

subsection \<open>The indicators as functions of time\<close>

lemma fdiv_NaN [simp]: "fdiv x NaN = NaN"
  by (cases x) simp_all

lemma percent_change_NaN [simp]: "percent_change x NaN = NaN"
  by (simp add: percent_change_def fsub_def)








lemma length_ema_run [simp]: "length (ema_run k p cnt v xs) = length xs"
  by (induction xs arbitrary: cnt v) (simp_all add: Let_def)




subsection \<open>The filled close\<close>

lemma find_append_last:
  "find P (xs @ [x]) = (case find P xs of Some v \<Rightarrow> Some v | None \<Rightarrow> if P x then Some x else None)"
  by (induction xs) simp_all

lemma find_present_Cons:
  "find present (y # ys) = (if y = NaN then find present ys else Some y)"
  by (simp add: present_def)

lemma find_replicate_NaN [simp]: "find present (replicate m NaN @ ys) = find present ys"
  by (induction m) (simp_all add: present_def)

lemma find_ffill_from: "find present (ffill_from NaN ys) = find present ys"
  by (induction ys) (simp_all add: present_def)

lemma ffill_from_nth_find:
  "t < length xs \<Longrightarrow>
   ffill_from p xs ! t
     = (case find present (rev (take (Suc t) xs)) of Some v \<Rightarrow> v | None \<Rightarrow> p)"
proof (induction xs arbitrary: t p)
  case Nil
  then show ?case by simp
next
  case (Cons x xs)
  show ?case
  proof (cases t)
    case 0
    then show ?thesis by (simp add: present_def)
  next
    case (Suc k)
    with Cons.prems have k: "k < length xs" by simp
    from Cons.IH [OF k] Suc show ?thesis
      by (simp add: find_append_last present_def split: option.splits)
  qed
qed

lemma bfill_nth_find:
  "t < length ys \<Longrightarrow>
   bfill ys ! t = (case find present (drop t ys) of Some v \<Rightarrow> v | None \<Rightarrow> NaN)"
proof (induction ys arbitrary: t)
  case Nil
  then show ?case by simp
next
  case (Cons y ys)
  show ?case
  proof (cases t)
    case 0
    have "at_time (bfill ys) 0 = (case find present ys of Some v \<Rightarrow> v | None \<Rightarrow> NaN)"
    proof (cases ys)
      case Nil
      then show ?thesis by (simp add: at_time_def)
    next
      case (Cons z zs)
      then have "0 < length ys" by simp
      from Cons.IH [OF this] show ?thesis by (simp add: at_time_def)
    qed
    with 0 show ?thesis by (simp add: find_present_Cons del: find.simps)
  next
    case (Suc k)
    with Cons.prems have "k < length ys" by simp
    from Cons.IH [OF this] Suc show ?thesis by simp
  qed
qed

lemma ffill_from_leading: "ffill_from NaN (replicate m NaN @ ys) = replicate m NaN @ ffill_from NaN ys"
  by (induction m) simp_all

lemma find_present_Some: "find present xs = Some v \<Longrightarrow> v \<noteq> NaN"
  by (auto simp: find_Some_iff present_def)

text \<open>The filled close at time \<open>t\<close> when a close is present at some time \<open>\<le> t\<close>.\<close>

lemma filled_present:
  assumes t: "t < length xs" and f: "find present (rev (take (Suc t) xs)) = Some v"
  shows "fillna (bfill (ffill xs)) z ! t = v"
proof -
  from ffill_from_nth_find [OF t, of NaN] f have v: "ffill xs ! t = v" by (simp add: ffill_def)
  from find_present_Some [OF f] have n: "v \<noteq> NaN" .
  from t v n have "bfill (ffill xs) ! t = v" by (simp add: bfill_keeps ffill_def)
  with t n show ?thesis by (simp add: fillna_def ffill_def)
qed

text \<open>The filled close at time \<open>t\<close> when the close is missing at every time \<open>\<le> t\<close>.\<close>

lemma filled_missing:
  assumes t: "t < length xs" and f: "find present (rev (take (Suc t) xs)) = None"
  shows "fillna (bfill (ffill xs)) z ! t
       = (case find present (drop (Suc t) xs) of Some v \<Rightarrow> v | None \<Rightarrow> z)"
proof -
  from f have "\<forall>v\<in>set (take (Suc t) xs). v = NaN"
    by (auto simp: find_None_iff present_def)
  then have "take (Suc t) xs = replicate (length (take (Suc t) xs)) NaN"
    by (metis replicate_length_same)
  moreover from t have "length (take (Suc t) xs) = Suc t" by simp
  ultimately have tk: "take (Suc t) xs = replicate (Suc t) NaN" by (simp only:)
  have "xs = take (Suc t) xs @ drop (Suc t) xs" by simp
  with tk have xs: "xs = replicate (Suc t) NaN @ drop (Suc t) xs" by simp
  let ?ys = "drop (Suc t) xs"
  have ff: "ffill xs = replicate (Suc t) NaN @ ffill_from NaN ?ys"
    unfolding ffill_def by (subst xs) (rule ffill_from_leading)
  have r: "replicate (Suc t) NaN = replicate t NaN @ [NaN]"
    by (simp add: replicate_append_same)
  have "drop t (replicate (Suc t) NaN @ ffill_from NaN ?ys) = NaN # ffill_from NaN ?ys"
    by (simp only: r) simp
  then have "find present (drop t (ffill xs)) = find present ?ys"
    by (simp only: ff find_present_Cons find_ffill_from simp_thms if_True)
  moreover from t have "bfill (ffill xs) ! t
      = (case find present (drop t (ffill xs)) of Some v \<Rightarrow> v | None \<Rightarrow> NaN)"
    by (intro bfill_nth_find) (simp add: ffill_def)
  ultimately have b: "bfill (ffill xs) ! t
      = (case find present ?ys of Some v \<Rightarrow> v | None \<Rightarrow> NaN)"
    by simp
  show ?thesis
  proof (cases "find present ?ys")
    case None
    with b t show ?thesis by (simp add: fillna_def ffill_def)
  next
    case (Some v)
    with b t find_present_Some [OF Some] show ?thesis by (simp add: fillna_def ffill_def)
  qed
qed

lemma price_tab:
  "map np_log (fillna (bfill (ffill (sel d ''close'' a))) (Fin 0))
     = map (spec_price d a) [0 ..< ntime d]"
proof (rule nth_equalityI)
  show "length (map np_log (fillna (bfill (ffill (sel d ''close'' a))) (Fin 0)))
      = length (map (spec_price d a) [0 ..< ntime d])"
    by (simp add: fillna_def ffill_def)
next
  fix t
  assume "t < length (map np_log (fillna (bfill (ffill (sel d ''close'' a))) (Fin 0)))"
  then have t: "t < ntime d" by (simp add: fillna_def ffill_def)
  let ?xs = "sel d ''close'' a"
  let ?c = "\<lambda>i. cell d ''close'' i a"
  from t have past: "rev (take (Suc t) ?xs) = map ?c (rev [0 ..< Suc t])"
    by (simp add: sel_def take_map take_upt_min min_def rev_map del: upt_Suc)
  have later: "drop (Suc t) ?xs = map ?c [Suc t ..< ntime d]"
    by (simp add: sel_def drop_map)
  from t have len: "t < length ?xs" by simp
  have "fillna (bfill (ffill ?xs)) (Fin 0) ! t
      = (case find present (map ?c (rev [0 ..< Suc t])) of
           Some v \<Rightarrow> v
         | None \<Rightarrow> (case find present (map ?c [Suc t ..< ntime d]) of
                      Some v \<Rightarrow> v | None \<Rightarrow> Fin 0))"
  proof (cases "find present (rev (take (Suc t) ?xs))")
    case None
    from filled_missing [OF len None, of "Fin 0"] None show ?thesis
      by (simp only: past later option.case)
  next
    case (Some v)
    from filled_present [OF len Some, of "Fin 0"] Some show ?thesis
      by (simp only: past option.case)
  qed
  with t show "map np_log (fillna (bfill (ffill ?xs)) (Fin 0)) ! t
      = map (spec_price d a) [0 ..< ntime d] ! t"
    by (simp add: spec_price_def fillna_def ffill_def del: upt_Suc)
qed









subsection \<open>No lookahead, and where the back-fill looks ahead\<close>

lemma feature_at_price:
  "t < ntime d \<Longrightarrow> feature_at (get_features L d a) ''price'' t = Some (spec_price d a t)"
  by (simp add: feature_at_def map_of_get_features price_tab at_time_def)

lemma find_present_all_missing:
  "\<forall>i\<le>t. x i = NaN \<Longrightarrow> find present (map x (rev [0 ..< Suc t])) = None"
  by (auto simp: find_None_iff present_def)

lemma spec_price_missing:
  assumes "\<forall>i\<le>t. cell d ''close'' i a = NaN"
  shows "spec_price d a t =
     np_log (case find present (map (\<lambda>i. cell d ''close'' i a) [Suc t ..< ntime d]) of
               Some v \<Rightarrow> v | None \<Rightarrow> Fin 0)"
  using find_present_all_missing [of t "\<lambda>i. cell d ''close'' i a", OF assms]
  by (simp only: spec_price_def option.case)

lemma spec_price_truncated:
  assumes "t < ntime d" and "\<forall>i\<le>t. cell d ''close'' i a = NaN"
  shows "spec_price (truncate_to d t) a t = NInf"
proof -
  from assms(1) have n: "ntime (truncate_to d t) = Suc t" by (simp add: truncate_to_def)
  have c: "cell (truncate_to d t) = cell d" by (simp add: truncate_to_def)
  from assms(2) have "\<forall>i\<le>t. cell (truncate_to d t) ''close'' i a = NaN" by (simp add: c)
  from spec_price_missing [OF this] show ?thesis by (simp add: n)
qed

text \<open>
  C1, as the code has it. At every time \<open>t\<close> of the Price Series, each of the six
  indicator channels read at \<open>t\<close> is the same on the series truncated to the times
  \<open>\<le> t\<close> as on the full series, and so is the \<open>price\<close> channel when the close is
  present at some time \<open>\<le> t\<close>. When the close is missing at every time \<open>\<le> t\<close>, the
  \<open>price\<close> channel at \<open>t\<close> is \<open>log 0 = -inf\<close> on the truncated series, and on the full
  series it is the logarithm of the first close present after \<open>t\<close> (of 0 when there is
  none): there the back-fill reads a later time.
\<close>

theorem get_features_no_lookahead:
  assumes t: "t < ntime d"
  shows "(c \<noteq> ''price'' \<longrightarrow>
            feature_at (get_features qnta (truncate_to d t) a) c t
              = feature_at (get_features qnta d a) c t) \<and>
         ((\<exists>i\<le>t. cell d ''close'' i a \<noteq> NaN) \<longrightarrow>
            feature_at (get_features qnta (truncate_to d t) a) ''price'' t
              = feature_at (get_features qnta d a) ''price'' t) \<and>
         ((\<forall>i\<le>t. cell d ''close'' i a = NaN) \<longrightarrow>
            feature_at (get_features qnta (truncate_to d t) a) ''price'' t = Some NInf \<and>
            feature_at (get_features qnta d a) ''price'' t
              = Some (np_log (case find present
                                     (map (\<lambda>i. cell d ''close'' i a) [Suc t ..< ntime d]) of
                                Some v \<Rightarrow> v | None \<Rightarrow> Fin 0)))"
proof (intro conjI impI)
  assume "c \<noteq> ''price''"
  then show "feature_at (get_features qnta (truncate_to d t) a) c t
      = feature_at (get_features qnta d a) c t"
    by (intro causal_lib_no_lookahead [OF causal_qnta t]) simp
next
  assume "\<exists>i\<le>t. cell d ''close'' i a \<noteq> NaN"
  then show "feature_at (get_features qnta (truncate_to d t) a) ''price'' t
      = feature_at (get_features qnta d a) ''price'' t"
    by (intro causal_lib_no_lookahead [OF causal_qnta t]) simp
next
  assume m: "\<forall>i\<le>t. cell d ''close'' i a = NaN"
  from t have "t < ntime (truncate_to d t)" by (simp add: truncate_to_def)
  from feature_at_price [OF this] spec_price_truncated [OF t m]
  show "feature_at (get_features qnta (truncate_to d t) a) ''price'' t = Some NInf"
    by simp
next
  assume m: "\<forall>i\<le>t. cell d ''close'' i a = NaN"
  from feature_at_price [OF t] spec_price_missing [OF m]
  show "feature_at (get_features qnta d a) ''price'' t
      = Some (np_log (case find present
                             (map (\<lambda>i. cell d ''close'' i a) [Suc t ..< ntime d]) of
                        Some v \<Rightarrow> v | None \<Rightarrow> Fin 0))"
    by simp
qed

lemma cell_closes: "cell (closes a xs) ''close'' t a = at_time xs t"
  by (simp add: closes_def)

lemma ntime_closes: "ntime (closes a xs) = length xs"
  by (simp add: closes_def)

theorem get_features_no_lookahead_witness:
  "(0::nat) < ntime (closes ''A'' [Fin 5, NaN]) \<and> ''momentum'' \<noteq> ''price'' \<and>
   feature_at (get_features qnta (truncate_to (closes ''A'' [Fin 5, NaN]) 0) ''A'') ''momentum'' 0
     = feature_at (get_features qnta (closes ''A'' [Fin 5, NaN]) ''A'') ''momentum'' 0 \<and>
   cell (closes ''A'' [Fin 5, NaN]) ''close'' 0 ''A'' \<noteq> NaN \<and>
   feature_at (get_features qnta (truncate_to (closes ''A'' [Fin 5, NaN]) 0) ''A'') ''price'' 0
     = feature_at (get_features qnta (closes ''A'' [Fin 5, NaN]) ''A'') ''price'' 0 \<and>
   (0::nat) < ntime (closes ''A'' [NaN, Fin 5]) \<and>
   cell (closes ''A'' [NaN, Fin 5]) ''close'' 0 ''A'' = NaN \<and>
   feature_at (get_features qnta (truncate_to (closes ''A'' [NaN, Fin 5]) 0) ''A'') ''price'' 0
     = Some NInf \<and>
   feature_at (get_features qnta (closes ''A'' [NaN, Fin 5]) ''A'') ''price'' 0
     = Some (Fin (ln 5))"
proof -
  have a: "(0::nat) < ntime (closes ''A'' [Fin 5, NaN])" by (simp add: ntime_closes)
  have b: "(0::nat) < ntime (closes ''A'' [NaN, Fin 5])" by (simp add: ntime_closes)
  have p: "cell (closes ''A'' [Fin 5, NaN]) ''close'' 0 ''A'' \<noteq> NaN"
    by (simp add: cell_closes at_time_def)
  have m: "cell (closes ''A'' [NaN, Fin 5]) ''close'' 0 ''A'' = NaN"
    by (simp add: cell_closes at_time_def)
  have l: "find present (map (\<lambda>i. cell (closes ''A'' [NaN, Fin 5]) ''close'' i ''A'')
              [Suc 0 ..< ntime (closes ''A'' [NaN, Fin 5])]) = Some (Fin 5)"
    by (simp add: cell_closes ntime_closes at_time_def present_def upt_rec)
  from get_features_no_lookahead [OF a, of "''momentum''" "''A''"] p
    get_features_no_lookahead [OF b, of "''momentum''" "''A''"] m l a b
  show ?thesis by simp
qed

text \<open>
  With a close missing at time 0 and present at time 1, the \<open>price\<close> channel at time 0
  is the logarithm of the later close on the full series and \<open>-inf\<close> on the series
  truncated to time 0.
\<close>

theorem get_features_price_lookahead_counterexample:
  "feature_at (get_features qnta (truncate_to (closes ''A'' [NaN, Fin 5]) 0) ''A'')
     ''price'' 0
   \<noteq> feature_at (get_features qnta (closes ''A'' [NaN, Fin 5]) ''A'') ''price'' 0"
  by (simp add: feature_at_def map_of_get_features sel_truncate_to closes_def sel_def
      at_time_def ffill_def fillna_def truncate_to_def)

section \<open>Properties of the Trainer\<close>

lemma get_target_classes_range: "set (get_target_classes d a) \<subseteq> {Fin 0, Fin 1}"
  by (auto simp: get_target_classes_def Let_def class_positive_def class_negative_def
      split: if_splits)

lemma get_target_classes_present: "t < ntime d \<Longrightarrow> get_target_classes d a ! t \<noteq> NaN"
  by (simp add: nth_get_target_classes)

lemma dropna_series_target:
  "dropna_series (ntime d) (get_target_classes d a)
     = map (\<lambda>t. (t, get_target_classes d a ! t)) [0 ..< ntime d]"
proof -
  have m: "map (\<lambda>t. (t, at_time (get_target_classes d a) t)) [0 ..< ntime d]
        = map (\<lambda>t. (t, get_target_classes d a ! t)) [0 ..< ntime d]"
    by (rule map_cong) (simp_all add: at_time_def)
  have "filter (\<lambda>(t, x). x \<noteq> NaN)
          (map (\<lambda>t. (t, get_target_classes d a ! t)) [0 ..< ntime d])
        = map (\<lambda>t. (t, get_target_classes d a ! t)) [0 ..< ntime d]"
    by (rule filter_True) (auto simp: get_target_classes_present)
  then show ?thesis by (simp only: dropna_series_def m)
qed

lemma fst_set_dropna: "fst ` set (dropna n fs) \<subseteq> {0 ..< n}"
  by (auto simp: dropna_def)

lemma aligned_features: "snd (aligned L d a) = valid_rows L d a"
proof -
  have "filter (\<lambda>(t, y). t \<in> fst ` set (dropna_series (ntime d) (get_target_classes d a)))
          (dropna (ntime d) (get_features L d a)) = dropna (ntime d) (get_features L d a)"
  proof (rule filter_True, clarify)
    fix t row
    assume "(t, row) \<in> set (dropna (ntime d) (get_features L d a))"
    then have "t < ntime d" using fst_set_dropna [of "ntime d" "get_features L d a"]
      by force
    then show "t \<in> fst ` set (dropna_series (ntime d) (get_target_classes d a))"
      by (force simp: dropna_series_target)
  qed
  then show ?thesis by (simp add: aligned_def align_inner_def valid_rows_def)
qed

lemma aligned_count_valid_rows: "aligned_count L d a = length (valid_rows L d a)"
  by (simp add: aligned_count_def aligned_features)

lemma aligned_labels: "set (map snd (fst (aligned L d a))) \<subseteq> {Fin 0, Fin 1}"
proof -
  have "snd ` set (dropna_series (ntime d) (get_target_classes d a))
          \<subseteq> set (get_target_classes d a)"
    by (auto simp: dropna_series_target)
  then show ?thesis
    using get_target_classes_range [of d a]
    by (auto simp: aligned_def align_inner_def)
qed

lemma train_loop_step:
  "train_loop fit L d (a # rest) (ms, lg) =
     (case fit_outcome fit L d a of
        None \<Rightarrow> train_loop fit L d rest (ms, lg)
      | Some (Inr model) \<Rightarrow> train_loop fit L d rest (ms(a \<mapsto> model), lg)
      | Some (Inl e) \<Rightarrow> train_loop fit L d rest (ms, lg @ [(''model training failed'', e)]))"
  by (simp add: fit_outcome_def aligned_def valid_rows_def Let_def split: prod.splits sum.splits)

lemma train_loop_result:
  "train_loop fit L d as (ms, lg) = Inr (trained fit L d as ms, lg @ failures fit L d as)"
proof (induction as arbitrary: ms lg)
  case Nil
  then show ?case by (simp add: trained_def failures_def)
next
  case (Cons a as)
  show ?case
  proof (cases "fit_outcome fit L d a")
    case None
    then show ?thesis
      by (simp only: train_loop_step Cons.IH) (auto simp: trained_def failures_def)
  next
    case (Some r)
    show ?thesis
    proof (cases r)
      case (Inl e)
      with Some show ?thesis
        by (simp only: train_loop_step Cons.IH) (auto simp: trained_def failures_def)
    next
      case (Inr m)
      with Some show ?thesis
        by (simp only: train_loop_step Cons.IH)
           (auto simp: trained_def failures_def fun_eq_iff split: option.splits sum.splits)
    qed
  qed
qed

lemma train_model_result:
  "train_model fit L d
     = Inr (trained fit L d (assets d) Map.empty, failures fit L d (assets d))"
  by (simp add: train_model_def train_loop_result)

lemma fit_outcome_short: "aligned_count L d a < 10 \<Longrightarrow> fit_outcome fit L d a = None"
  by (simp add: fit_outcome_def aligned_count_valid_rows)

text \<open>
  C2. An asset with fewer than 10 aligned (feature, label) samples, counted after the
  missing rows are dropped and the two sides are joined on their shared times, has no
  entry in the mapping \<open>train_model\<close> returns; the Trainer returns normally, and its
  loop passes over the asset without touching the models or the log.
\<close>

theorem train_model_skips_short_assets:
  assumes "aligned_count L d a < 10"
  shows "(\<exists>ms lg. train_model fit L d = Inr (ms, lg) \<and> ms a = None) \<and>
         (\<forall>rest ms lg. train_loop fit L d (a # rest) (ms, lg) = train_loop fit L d rest (ms, lg))"
proof -
  from assms have o: "fit_outcome fit L d a = None" by (rule fit_outcome_short)
  then have "trained fit L d (assets d) Map.empty a = None"
    by (simp add: trained_def)
  then have "\<exists>ms lg. train_model fit L d = Inr (ms, lg) \<and> ms a = None"
    by (simp add: train_model_result)
  moreover have "\<forall>rest ms lg. train_loop fit L d (a # rest) (ms, lg)
      = train_loop fit L d rest (ms, lg)"
    by (simp only: train_loop_step o option.case) simp
  ultimately show ?thesis by blast
qed

text \<open>
  C6. When fitting fails for one asset, \<open>train_model\<close> still returns: the failure is in
  the log, the asset has no entry in the mapping, and every asset whose fit succeeds has
  its model there.
\<close>

theorem train_model_skip_and_continue:
  assumes "bad \<in> set (assets d)" and "fit_outcome fit L d bad = Some (Inl e)"
  shows "\<exists>ms lg. train_model fit L d = Inr (ms, lg) \<and> ms bad = None
           \<and> (''model training failed'', e) \<in> set lg
           \<and> (\<forall>a m. a \<in> set (assets d) \<and> fit_outcome fit L d a = Some (Inr m)
                  \<longrightarrow> ms a = Some m)"
proof -
  let ?ms = "trained fit L d (assets d) Map.empty"
  let ?lg = "failures fit L d (assets d)"
  have 1: "?ms bad = None" using assms by (simp add: trained_def)
  have 2: "(''model training failed'', e) \<in> set ?lg"
    using assms by (force simp: failures_def)
  have 3: "\<forall>a m. a \<in> set (assets d) \<and> fit_outcome fit L d a = Some (Inr m)
                  \<longrightarrow> ?ms a = Some m"
    by (simp add: trained_def)
  from 1 2 3 show ?thesis by (simp only: train_model_result) blast
qed

lemma ffill_from_id: "NaN \<notin> set xs \<Longrightarrow> ffill_from p xs = xs"
  by (induction xs arbitrary: p) auto

lemma bfill_id: "NaN \<notin> set xs \<Longrightarrow> bfill xs = xs"
  by (induction xs) auto

lemma fillna_id: "NaN \<notin> set xs \<Longrightarrow> fillna xs v = xs"
  by (induction xs) (auto simp: fillna_def)

lemma sel_flat_prices:
  "sel (flat_prices n as z) f a
     = map (\<lambda>t. if f = ''close'' \<and> a = z \<and> t = 3 then Fin 0 else Fin 1) [0 ..< n]"
  by (simp add: sel_def flat_prices_def)

lemma ntime_flat_prices [simp]: "ntime (flat_prices n as z) = n"
  by (simp add: flat_prices_def)

lemma assets_flat_prices [simp]: "assets (flat_prices n as z) = as"
  by (simp add: flat_prices_def)

lemma row_at_flat_prices:
  assumes "t < n"
  shows "row_at (get_features passthrough (flat_prices n as z) a) t = flat_row z a t"
proof -
  have c: "NaN \<notin> set (sel (flat_prices n as z) ''close'' a)"
    by (auto simp: sel_flat_prices)
  have p: "fillna (bfill (ffill (sel (flat_prices n as z) ''close'' a))) (Fin 0)
      = sel (flat_prices n as z) ''close'' a"
    using c by (simp add: ffill_def ffill_from_id bfill_id fillna_id)
  show ?thesis
    using assms
    by (simp add: row_at_def get_features_def Let_def p passthrough_def at_time_def
        flat_row_def) (simp add: flat_prices_def)
qed

lemma valid_rows_flat_prices:
  "valid_rows passthrough (flat_prices n as z) a = map (\<lambda>t. (t, flat_row z a t)) [0 ..< n]"
proof -
  have m: "map (\<lambda>t. (t, row_at (get_features passthrough (flat_prices n as z) a) t)) [0 ..< n]
      = map (\<lambda>t. (t, flat_row z a t)) [0 ..< n]"
    by (rule map_cong) (simp_all add: row_at_flat_prices)
  have "filter (\<lambda>(t, row). NaN \<notin> set row) (map (\<lambda>t. (t, flat_row z a t)) [0 ..< n])
      = map (\<lambda>t. (t, flat_row z a t)) [0 ..< n]"
    by (rule filter_True) (auto simp: flat_row_def)
  then show ?thesis
    by (simp only: valid_rows_def dropna_def m ntime_flat_prices)
qed

lemma aligned_count_flat_prices: "aligned_count passthrough (flat_prices n as z) a = n"
  by (simp add: aligned_count_valid_rows valid_rows_flat_prices)

theorem train_model_skips_short_assets_witness:
  "aligned_count passthrough (flat_prices 9 [''A''] ''Z'') ''A'' < 10 \<and>
   (\<exists>ms lg. train_model knn_fit passthrough (flat_prices 9 [''A''] ''Z'') = Inr (ms, lg)
      \<and> ms ''A'' = None)"
proof -
  have h: "aligned_count passthrough (flat_prices 9 [''A''] ''Z'') ''A'' < 10"
    by (simp add: aligned_count_flat_prices)
  from train_model_skips_short_assets [OF h, of knn_fit] h show ?thesis by blast
qed

lemma fit_outcome_interrupt:
  "10 \<le> n \<Longrightarrow>
   fit_outcome (\<lambda>m X y. Inl KeyboardInterrupt) passthrough (flat_prices n as z) a
     = Some (Inl KeyboardInterrupt)"
  by (simp add: fit_outcome_def valid_rows_flat_prices)

text \<open>
  C5, at a failing input. A \<open>KeyboardInterrupt\<close> raised while the one asset is being
  fitted does not leave \<open>train_model\<close>: the function returns an empty mapping and a
  log entry, as for any other failure.
\<close>

theorem train_model_swallows_interrupt:
  "train_model (\<lambda>m X y. Inl KeyboardInterrupt) passthrough (flat_prices 10 [''A''] ''Z'')
     = Inr (Map.empty, [(''model training failed'', KeyboardInterrupt)])"
  by (simp add: train_model_result trained_def failures_def fit_outcome_interrupt fun_eq_iff)

section \<open>Properties of the Predictor\<close>

lemma length_fold_update [simp]:
  "length (fold (\<lambda>(t, p) col. col[t := p]) zs col) = length col"
  by (induction zs arbitrary: col) auto

lemma nth_fold_update:
  "t \<notin> fst ` set zs \<Longrightarrow> fold (\<lambda>(t, p) col. col[t := p]) zs col ! t = col ! t"
  by (induction zs arbitrary: col) auto

lemma set_fold_update:
  "set (fold (\<lambda>(t, p) col. col[t := p]) zs col) \<subseteq> set col \<union> snd ` set zs"
proof (induction zs arbitrary: col)
  case Nil
  then show ?case by simp
next
  case (Cons z zs)
  obtain t p where z: "z = (t, p)" by (cases z)
  have "set (col[t := p]) \<subseteq> insert p (set col)" by (rule set_update_subset_insert)
  with Cons.IH [of "col[t := p]"] z show ?case by auto
qed

lemma assign_length: "assign w a ts ps = Inr w' \<Longrightarrow> length (w' b) = length (w b)"
  by (auto simp: assign_def split: if_splits)

lemma assign_other: "assign w a ts ps = Inr w' \<Longrightarrow> b \<noteq> a \<Longrightarrow> w' b = w b"
  by (auto simp: assign_def split: if_splits)

lemma assign_frame: "assign w a ts ps = Inr w' \<Longrightarrow> t \<notin> set ts \<Longrightarrow> w' b ! t = w b ! t"
proof -
  assume a: "assign w a ts ps = Inr w'" and t: "t \<notin> set ts"
  from t have "t \<notin> fst ` set (zip ts ps)" by (auto dest: set_zip_leftD)
  with a show ?thesis by (auto simp: assign_def nth_fold_update split: if_splits)
qed

lemma assign_values: "assign w a ts ps = Inr w' \<Longrightarrow> set (w' b) \<subseteq> set (w b) \<union> set ps"
proof -
  assume a: "assign w a ts ps = Inr w'"
  have "snd ` set (zip ts ps) \<subseteq> set ps" by (auto dest: set_zip_rightD)
  with set_fold_update [of "zip ts ps" "w a"]
  have "set (fold (\<lambda>(t, p) col. col[t := p]) (zip ts ps) (w a)) \<subseteq> set (w a) \<union> set ps"
    by blast
  with a show ?thesis by (auto simp: assign_def split: if_splits)
qed

lemma predict_and_write_Inr:
  "predict_and_write predict m rows w a = Inr w' \<longleftrightarrow>
     (\<exists>ps. predict m (map snd rows) = Inr ps \<and> assign w a (map fst rows) ps = Inr w')"
  by (auto simp: predict_and_write_def split: sum.splits)

lemma predict_loop_step:
  "predict_loop predict ms L d (a # rest) (w, lg) =
     (case ms a of
        None \<Rightarrow> predict_loop predict ms L d rest (w, lg)
      | Some m \<Rightarrow>
          if valid_rows L d a = [] then predict_loop predict ms L d rest (w, lg)
          else
            (case predict_and_write predict m (valid_rows L d a) w a of
               Inr w' \<Rightarrow> predict_loop predict ms L d rest (w', lg)
             | Inl KeyboardInterrupt \<Rightarrow> Inl KeyboardInterrupt
             | Inl e \<Rightarrow>
                 predict_loop predict ms L d rest (w, lg @ [(''model prediction failed'', e)])))"
  by (simp add: valid_rows_def Let_def split: option.splits sum.splits exn.splits)

declare predict_loop.simps(2) [simp del]

text \<open>
  A property of the weights that every write of the Predictor keeps holds at the end of
  its loop.
\<close>

lemma predict_loop_invariant:
  assumes "predict_loop predict ms L d as (w0, lg0) = Inr (w, lg)"
    and "P w0"
    and step: "\<And>a m ps u u'. ms a = Some m \<Longrightarrow> valid_rows L d a \<noteq> [] \<Longrightarrow>
           predict m (map snd (valid_rows L d a)) = Inr ps \<Longrightarrow>
           assign u a (map fst (valid_rows L d a)) ps = Inr u' \<Longrightarrow> P u \<Longrightarrow> P u'"
  shows "P w"
  using assms(1,2)
proof (induction as arbitrary: w0 lg0)
  case Nil
  then show ?case by simp
next
  case (Cons a as)
  show ?case
  proof (cases "ms a")
    case None
    with Cons.prems(1) have "predict_loop predict ms L d as (w0, lg0) = Inr (w, lg)"
      by (simp add: predict_loop_step)
    from Cons.IH [OF this Cons.prems(2)] show ?thesis .
  next
    case (Some m)
    show ?thesis
    proof (cases "valid_rows L d a = []")
      case True
      with Some Cons.prems(1) have "predict_loop predict ms L d as (w0, lg0) = Inr (w, lg)"
        by (simp add: predict_loop_step)
      from Cons.IH [OF this Cons.prems(2)] show ?thesis .
    next
      case False
      show ?thesis
      proof (cases "predict_and_write predict m (valid_rows L d a) w0 a")
        case (Inr u')
        with Some False Cons.prems(1)
        have run: "predict_loop predict ms L d as (u', lg0) = Inr (w, lg)"
          by (simp add: predict_loop_step)
        from Inr obtain ps where "predict m (map snd (valid_rows L d a)) = Inr ps"
          and "assign w0 a (map fst (valid_rows L d a)) ps = Inr u'"
          by (auto simp: predict_and_write_Inr)
        from step [OF Some False this Cons.prems(2)] have "P u'" .
        from Cons.IH [OF run this] show ?thesis .
      next
        case (Inl e)
        with Some False Cons.prems(1)
        have "e \<noteq> KeyboardInterrupt"
          by (auto simp: predict_loop_step)
        with Inl Some False Cons.prems(1)
        have "predict_loop predict ms L d as
                (w0, lg0 @ [(''model prediction failed'', e)]) = Inr (w, lg)"
          by (cases e) (simp_all add: predict_loop_step)
        from Cons.IH [OF this Cons.prems(2)] show ?thesis .
      qed
    qed
  qed
qed

lemma valid_rows_times:
  "t \<in> set (map fst (valid_rows L d a)) \<Longrightarrow>
     t < ntime d \<and> NaN \<notin> set (row_at (get_features L d a) t)"
  by (auto simp: valid_rows_def dropna_def)

text \<open>
  C4. When \<open>predict_weights\<close> returns, the Weights Tensor has one entry for every time
  step of every asset, and the column of an asset with no model in the mapping, or with
  no valid feature row, is zero throughout.
\<close>

theorem predict_weights_zero_without_model:
  assumes "predict_weights predict ms L d = Inr (w, lg)"
  shows "(\<forall>a. length (w a) = ntime d) \<and>
         (\<forall>a. ms a = None \<or> valid_rows L d a = [] \<longrightarrow> w a = replicate (ntime d) (Fin 0))"
proof -
  from assms have run: "predict_loop predict ms L d (assets d) (zeros_like d, []) = Inr (w, lg)"
    by (simp add: predict_weights_def)
  have len: "\<forall>a. length (w a) = ntime d"
    by (rule predict_loop_invariant [OF run, where P = "\<lambda>u. \<forall>a. length (u a) = ntime d"])
       (simp_all add: zeros_like_def assign_length)
  have zero: "w a = replicate (ntime d) (Fin 0)" if a: "ms a = None \<or> valid_rows L d a = []" for a
  proof -
    have "w a = zeros_like d a"
    proof (rule predict_loop_invariant [OF run, where P = "\<lambda>u. u a = zeros_like d a"])
      show "zeros_like d a = zeros_like d a" ..
    next
      fix b m ps u u'
      assume "ms b = Some m" "valid_rows L d b \<noteq> []"
        and w: "assign u b (map fst (valid_rows L d b)) ps = Inr u'" and u: "u a = zeros_like d a"
      with a have "a \<noteq> b" by auto
      with assign_other [OF w] u show "u' a = zeros_like d a" by simp
    qed
    then show ?thesis by (simp add: zeros_like_def)
  qed
  from len zero show ?thesis by blast
qed

text \<open>
  C7. The loop of \<open>predict_weights\<close> leaves the weight of an asset untouched at every
  time whose feature row has a missing value, whatever the tensor held before, and
  leaves the whole column untouched when the asset has no valid row.
  (\<open>predict_weights\<close> runs this loop over \<open>assets d\<close> from the zero tensor.)
\<close>

theorem predict_loop_writes_valid_rows_only:
  assumes "predict_loop predict ms L d as (w0, lg0) = Inr (w, lg)"
  shows "(NaN \<in> set (row_at (get_features L d a) t) \<longrightarrow> w a ! t = w0 a ! t) \<and>
         (valid_rows L d a = [] \<longrightarrow> w a = w0 a)"
proof -
  have 1: "w a ! t = w0 a ! t" if n: "NaN \<in> set (row_at (get_features L d a) t)"
  proof (rule predict_loop_invariant [OF assms, where P = "\<lambda>u. u a ! t = w0 a ! t"])
    show "w0 a ! t = w0 a ! t" ..
  next
    fix b m ps u u'
    assume w: "assign u b (map fst (valid_rows L d b)) ps = Inr u'" and u: "u a ! t = w0 a ! t"
    show "u' a ! t = w0 a ! t"
    proof (cases "a = b")
      case True
      with n have "t \<notin> set (map fst (valid_rows L d b))"
        using valid_rows_times [of t L d a] by blast
      from assign_frame [OF w this] u show ?thesis by simp
    next
      case False
      with assign_other [OF w] u show ?thesis by simp
    qed
  qed
  have 2: "w a = w0 a" if e: "valid_rows L d a = []"
  proof (rule predict_loop_invariant [OF assms, where P = "\<lambda>u. u a = w0 a"])
    show "w0 a = w0 a" ..
  next
    fix b m ps u u'
    assume "valid_rows L d b \<noteq> []"
      and w: "assign u b (map fst (valid_rows L d b)) ps = Inr u'" and u: "u a = w0 a"
    with e have "a \<noteq> b" by auto
    with assign_other [OF w] u show "u' a = w0 a" by simp
  qed
  from 1 2 show ?thesis by blast
qed

section \<open>The weights stay between 0 and 1\<close>

lemma sum_list_unit:
  fixes xs :: "real list"
  shows "\<forall>x\<in>set xs. 0 \<le> x \<and> x \<le> 1 \<Longrightarrow> 0 \<le> sum_list xs \<and> sum_list xs \<le> real (length xs)"
  by (induction xs) auto

lemma reals_classes: "set y \<subseteq> {Fin 0, Fin 1} \<Longrightarrow> set (reals y) \<subseteq> {0, 1}"
  by (auto simp: reals_def)

lemma knn_fit_classes:
  assumes "knn_fit (get_model 5) X y = Inr m" and "set y \<subseteq> {Fin 0, Fin 1}"
  shows "fitted_on_classes m"
proof -
  from assms(1) have m: "m = (get_model 5)\<lparr>fit_X := map reals X, fit_y := reals y\<rparr>"
    and l: "length X = length y"
    by (auto simp: knn_fit_def split: if_splits)
  from reals_classes [OF assms(2)] m l show ?thesis
    by (simp add: fitted_on_classes_def get_model_def) (simp add: reals_def)
qed

lemma length_kneighbors:
  "n_neighbors m \<le> length (fit_X m) \<Longrightarrow> length (kneighbors m q) = n_neighbors m"
  by (simp add: kneighbors_def)

lemma set_kneighbors: "set (kneighbors m q) \<subseteq> {0 ..< length (fit_X m)}"
proof -
  have "set (kneighbors m q)
      \<subseteq> set (sort_key (\<lambda>i. sq_dist (fit_X m ! i) q) [0 ..< length (fit_X m)])"
    unfolding kneighbors_def by (rule set_take_subset)
  then show ?thesis by simp
qed

lemma knn_predict_unit:
  assumes p: "knn_predict m X = Inr ps" and f: "fitted_on_classes m"
  shows "\<forall>x\<in>set ps. in_unit x"
proof
  fix x
  assume x: "x \<in> set ps"
  from p have k: "n_neighbors m \<le> length (fit_X m)"
    and ps: "ps = map (\<lambda>q. Fin (sum_list (map (\<lambda>i. fit_y m ! i) (kneighbors m (reals q)))
                               / real (n_neighbors m))) X"
    by (auto simp: knn_predict_def split: if_splits)
  from x ps obtain q where
    xq: "x = Fin (sum_list (map (\<lambda>i. fit_y m ! i) (kneighbors m (reals q)))
                 / real (n_neighbors m))"
    by auto
  let ?ys = "map (\<lambda>i. fit_y m ! i) (kneighbors m (reals q))"
  have "\<forall>v\<in>set ?ys. 0 \<le> v \<and> v \<le> 1"
  proof
    fix v
    assume "v \<in> set ?ys"
    then obtain i where i: "i \<in> set (kneighbors m (reals q))" and v: "v = fit_y m ! i"
      by auto
    from i set_kneighbors [of m "reals q"] f have "i < length (fit_y m)"
      by (auto simp: fitted_on_classes_def)
    then have "fit_y m ! i \<in> set (fit_y m)" by simp
    with f v show "0 \<le> v \<and> v \<le> 1" by (auto simp: fitted_on_classes_def)
  qed
  from sum_list_unit [OF this] length_kneighbors [OF k, of "reals q"]
  have s: "0 \<le> sum_list ?ys \<and> sum_list ?ys \<le> real (n_neighbors m)" by simp
  from f have "0 < real (n_neighbors m)" by (simp add: fitted_on_classes_def)
  with s have "0 \<le> sum_list ?ys / real (n_neighbors m)
      \<and> sum_list ?ys / real (n_neighbors m) \<le> 1"
    by (simp add: divide_le_eq)
  with xq show "in_unit x" by (simp add: in_unit_def)
qed

lemma trained_fitted_on_classes:
  assumes fit: "fit_as_knn fit" and t: "train_model fit L d = Inr (ms, lg)" and m: "ms a = Some m"
  shows "fitted_on_classes m"
proof -
  from t have "ms = trained fit L d (assets d) Map.empty" by (simp add: train_model_result)
  with m have "fit_outcome fit L d a = Some (Inr m)"
    by (auto simp: trained_def split: if_splits option.splits sum.splits)
  then have "fit (get_model 5) (map snd (snd (aligned L d a))) (map snd (fst (aligned L d a)))
      = Inr m"
    by (auto simp: fit_outcome_def split: if_splits)
  with fit have "knn_fit (get_model 5) (map snd (snd (aligned L d a)))
      (map snd (fst (aligned L d a))) = Inr m"
    by (simp add: fit_as_knn_def)
  from knn_fit_classes [OF this aligned_labels] show ?thesis .
qed

text \<open>
  C10. With the models \<open>train_model\<close> returns, every entry of the Weights Tensor
  \<open>predict_weights\<close> returns lies in the closed interval from 0 to 1: an entry is the
  initial 0 or a prediction, and a prediction is the mean of the labels, each 0 or 1, of
  the 5 nearest training rows. \<open>fit\<close> and \<open>predict\<close> may raise at any call.
\<close>

theorem predict_weights_in_unit_interval:
  assumes fit: "fit_as_knn fit" and predict: "predict_as_knn predict"
    and t: "train_model fit L d = Inr (ms, lg)"
    and p: "predict_weights predict ms L' d' = Inr (w, lg')"
  shows "\<forall>a. \<forall>x\<in>set (w a). in_unit x"
proof -
  from p have run: "predict_loop predict ms L' d' (assets d') (zeros_like d', []) = Inr (w, lg')"
    by (simp add: predict_weights_def)
  show ?thesis
  proof (rule predict_loop_invariant [OF run, where P = "\<lambda>u. \<forall>a. \<forall>x\<in>set (u a). in_unit x"])
    show "\<forall>a. \<forall>x\<in>set (zeros_like d' a). in_unit x"
      by (simp add: zeros_like_def in_unit_def)
  next
    fix b m ps u u'
    assume m: "ms b = Some m"
      and ps: "predict m (map snd (valid_rows L' d' b)) = Inr ps"
      and w: "assign u b (map fst (valid_rows L' d' b)) ps = Inr u'"
      and u: "\<forall>a. \<forall>x\<in>set (u a). in_unit x"
    from predict ps have "knn_predict m (map snd (valid_rows L' d' b)) = Inr ps"
      by (simp add: predict_as_knn_def)
    from knn_predict_unit [OF this trained_fitted_on_classes [OF fit t m]]
    have "\<forall>x\<in>set ps. in_unit x" .
    with u assign_values [OF w] show "\<forall>a. \<forall>x\<in>set (u' a). in_unit x" by blast
  qed
qed

section \<open>Channels and determinism of the Feature Extractor\<close>



text \<open>
  C9. The Feature Tensor is a function of the Price Series alone: two runs in which the
  library answers alike, on Price Series with the same time axis and the same close,
  high and low, return the same tensor.
\<close>

theorem get_features_deterministic:
  assumes L: "lib_agree L L'" and n: "ntime d = ntime d'"
    and c: "\<forall>f\<in>{''close'', ''high'', ''low''}. \<forall>t<ntime d. cell d f t a = cell d' f t a"
  shows "get_features L d a = get_features L' d' a"
proof -
  have s: "sel d f a = sel d' f a" if "f \<in> {''close'', ''high'', ''low''}" for f
    unfolding sel_def n [symmetric] using c that by (intro map_cong) auto
  have "sel d ''close'' a = sel d' ''close'' a" "sel d ''high'' a = sel d' ''high'' a"
    "sel d ''low'' a = sel d' ''low'' a"
    by (simp_all add: s)
  moreover from L have "roc L = roc L'" "lwma L = lwma L'" "tr L = tr L'" "rsi L = rsi L'"
    "true_divide L = true_divide L'"
    "\<And>xs p q r. fst (snd (macd L xs p q r)) = fst (snd (macd L' xs p q r))"
    "\<And>h l c p. snd (stochastic L h l c p) = snd (stochastic L' h l c p)"
    by (auto simp: lib_agree_def fun_eq_iff)
  ultimately show ?thesis
    by (simp add: get_features_def Let_def)
qed

theorem get_features_deterministic_witness:
  "lib_agree passthrough (passthrough\<lparr>macd := (\<lambda>xs p q r. ([], xs, []))\<rparr>) \<and>
   ntime (closes ''A'' [Fin 1, Fin 2]) = ntime ((closes ''A'' [Fin 1, Fin 2])\<lparr>assets := []\<rparr>) \<and>
   get_features passthrough (closes ''A'' [Fin 1, Fin 2]) ''A''
     = get_features (passthrough\<lparr>macd := (\<lambda>xs p q r. ([], xs, []))\<rparr>)
         ((closes ''A'' [Fin 1, Fin 2])\<lparr>assets := []\<rparr>) ''A''"
proof -
  have a: "lib_agree passthrough (passthrough\<lparr>macd := (\<lambda>xs p q r. ([], xs, []))\<rparr>)"
    by (simp add: lib_agree_def passthrough_def)
  have b: "ntime (closes ''A'' [Fin 1, Fin 2])
      = ntime ((closes ''A'' [Fin 1, Fin 2])\<lparr>assets := []\<rparr>)"
    by simp
  have c: "\<forall>f\<in>{''close'', ''high'', ''low''}. \<forall>t<ntime (closes ''A'' [Fin 1, Fin 2]).
      cell (closes ''A'' [Fin 1, Fin 2]) f t ''A''
        = cell ((closes ''A'' [Fin 1, Fin 2])\<lparr>assets := []\<rparr>) f t ''A''"
    by simp
  from get_features_deterministic [OF a b c] a b show ?thesis by blast
qed

section \<open>Runs of the Trainer and the Predictor on concrete prices\<close>

lemma aligned_labels_times:
  "fst (aligned L d a)
     = map (\<lambda>t. (t, get_target_classes d a ! t)) (map fst (valid_rows L d a))"
proof -
  let ?g = "\<lambda>t. (t, row_at (get_features L d a) t)"
  let ?Q = "\<lambda>t. NaN \<notin> set (row_at (get_features L d a) t)"
  have v: "valid_rows L d a = map ?g (filter ?Q [0 ..< ntime d])"
    by (simp add: valid_rows_def dropna_def filter_map comp_def)
  then have ts: "map fst (valid_rows L d a) = filter ?Q [0 ..< ntime d]"
    by (simp add: comp_def)
  have "filter (\<lambda>t. t \<in> fst ` set (valid_rows L d a)) [0 ..< ntime d]
      = filter ?Q [0 ..< ntime d]"
    by (rule filter_cong) (auto simp: v image_iff)
  then show ?thesis
    by (simp add: aligned_def align_inner_def dropna_series_target filter_map comp_def ts
        valid_rows_def [symmetric] case_prod_unfold)
qed

lemma all_finite_classes: "set y \<subseteq> {Fin 0, Fin 1} \<Longrightarrow> all_finite y"
  by (auto simp: all_finite_def list_all_iff)

lemma fit_outcome_flat_prices:
  assumes n: "10 \<le> n"
  shows "fit_outcome knn_fit passthrough (flat_prices n as z) a =
     Some (if a = z then Inl ValueError
           else Inr ((get_model 5)\<lparr>fit_X := map (\<lambda>t. reals (flat_row z a t)) [0 ..< n],
                  fit_y := reals (get_target_classes (flat_prices n as z) a)\<rparr>))"
proof -
  let ?d = "flat_prices n as z"
  have X: "map snd (snd (aligned passthrough ?d a)) = map (flat_row z a) [0 ..< n]"
    by (simp add: aligned_features valid_rows_flat_prices comp_def)
  have "map snd (fst (aligned passthrough ?d a))
      = map (\<lambda>t. get_target_classes ?d a ! t) [0 ..< length (get_target_classes ?d a)]"
    by (simp add: aligned_labels_times valid_rows_flat_prices comp_def)
  then have y: "map snd (fst (aligned passthrough ?d a)) = get_target_classes ?d a"
    by (simp only: map_nth)
  have fy: "all_finite (get_target_classes ?d a)"
    by (rule all_finite_classes) (rule get_target_classes_range)
  have rows: "length (valid_rows passthrough ?d a) = n"
    by (simp add: valid_rows_flat_prices)
  from n have o: "fit_outcome knn_fit passthrough ?d a
      = Some (knn_fit (get_model 5) (map (flat_row z a) [0 ..< n]) (get_target_classes ?d a))"
    by (simp add: fit_outcome_def rows X y)
  have len: "length (map (flat_row z a) [0 ..< n]) = length (get_target_classes ?d a)"
    by simp
  from n have ne: "map (flat_row z a) [0 ..< n] \<noteq> []" by auto
  show ?thesis
  proof (cases "a = z")
    case True
    from n have "flat_row z z 3 \<in> set (map (flat_row z z) [0 ..< n])" by simp
    moreover have "\<not> all_finite (flat_row z z 3)" by (simp add: flat_row_def all_finite_def)
    ultimately have "\<not> list_all all_finite (map (flat_row z z) [0 ..< n])"
      unfolding list_all_iff by blast
    with True have "knn_fit (get_model 5) (map (flat_row z a) [0 ..< n])
        (get_target_classes ?d a) = Inl ValueError"
      by (simp add: knn_fit_def)
    with True o show ?thesis by simp
  next
    case False
    then have "list_all all_finite (map (flat_row z a) [0 ..< n])"
      by (simp add: list_all_iff flat_row_def all_finite_def)
    with fy len ne have "knn_fit (get_model 5) (map (flat_row z a) [0 ..< n])
        (get_target_classes ?d a)
      = Inr ((get_model 5)\<lparr>fit_X := map reals (map (flat_row z a) [0 ..< n]),
                fit_y := reals (get_target_classes ?d a)\<rparr>)"
      unfolding knn_fit_def by (simp add: get_model_def)
    with False o show ?thesis by (simp add: comp_def)
  qed
qed

theorem train_model_skip_and_continue_witness:
  "''C'' \<in> set (assets (flat_prices 10 [''A'', ''B'', ''C'', ''D'', ''E''] ''C'')) \<and>
   fit_outcome knn_fit passthrough (flat_prices 10 [''A'', ''B'', ''C'', ''D'', ''E''] ''C'') ''C''
     = Some (Inl ValueError) \<and>
   (\<exists>ms lg. train_model knn_fit passthrough
               (flat_prices 10 [''A'', ''B'', ''C'', ''D'', ''E''] ''C'') = Inr (ms, lg)
      \<and> ms ''C'' = None \<and> ms ''A'' \<noteq> None \<and> ms ''B'' \<noteq> None \<and> ms ''D'' \<noteq> None
      \<and> ms ''E'' \<noteq> None \<and> (''model training failed'', ValueError) \<in> set lg)"
proof -
  let ?d = "flat_prices 10 [''A'', ''B'', ''C'', ''D'', ''E''] ''C''"
  have a: "''C'' \<in> set (assets ?d)" by simp
  have b: "fit_outcome knn_fit passthrough ?d ''C'' = Some (Inl ValueError)"
    by (simp add: fit_outcome_flat_prices)
  from train_model_skip_and_continue [OF a b] obtain ms lg where
    t: "train_model knn_fit passthrough ?d = Inr (ms, lg)" and c: "ms ''C'' = None"
    and l: "(''model training failed'', ValueError) \<in> set lg"
    and o: "\<And>a m. a \<in> set (assets ?d) \<Longrightarrow> fit_outcome knn_fit passthrough ?d a = Some (Inr m)
              \<Longrightarrow> ms a = Some m"
    by blast
  have "ms ''A'' \<noteq> None" "ms ''B'' \<noteq> None" "ms ''D'' \<noteq> None" "ms ''E'' \<noteq> None"
    by (simp_all add: o fit_outcome_flat_prices)
  with a b t c l show ?thesis by blast
qed

text \<open>The Predictor's loop returns unless \<open>predict\<close> raises \<open>KeyboardInterrupt\<close>.\<close>

lemma predict_and_write_as_knn:
  "predict_and_write knn_predict m rows w a \<noteq> Inl KeyboardInterrupt"
  by (auto simp: predict_and_write_def knn_predict_def assign_def split: sum.splits)

lemma predict_loop_returns:
  assumes "\<And>m rows u a. predict_and_write predict m rows u a \<noteq> Inl KeyboardInterrupt"
  shows "\<exists>w lg. predict_loop predict ms L d as (w0, lg0) = Inr (w, lg)"
proof (induction as arbitrary: w0 lg0)
  case Nil
  then show ?case by simp
next
  case (Cons a as)
  show ?case
  proof (cases "ms a")
    case None
    with Cons.IH show ?thesis by (simp add: predict_loop_step)
  next
    case (Some m)
    show ?thesis
    proof (cases "predict_and_write predict m (valid_rows L d a) w0 a")
      case (Inl e)
      with assms have "e \<noteq> KeyboardInterrupt" by metis
      with Inl Some Cons.IH show ?thesis by (cases e) (simp_all add: predict_loop_step)
    next
      case (Inr u)
      with Some Cons.IH show ?thesis by (simp add: predict_loop_step)
    qed
  qed
qed

lemma predict_loop_interrupt:
  assumes "ms a = Some m" and "valid_rows L d a \<noteq> []"
    and "predict m (map snd (valid_rows L d a)) = Inl KeyboardInterrupt"
  shows "predict_loop predict ms L d (a # rest) (w, lg) = Inl KeyboardInterrupt"
  using assms by (simp add: predict_loop_step predict_and_write_def)

lemma upt2: "[0 ..< 2] = [0, Suc 0]"
  by (simp add: numeral_2_eq_2)

lemma valid_rows_gap2_A:
  "valid_rows passthrough gap2 ''A'' = [(1, [Fin 1, Fin 1, Fin 1, Fin 1, Fin 1, Fin 0, Fin 1])]"
  by (simp add: valid_rows_def dropna_def row_at_def get_features_def Let_def sel_def
      passthrough_def gap2_def at_time_def ffill_def fillna_def upt2)

lemma valid_rows_gap2_B: "valid_rows passthrough gap2 ''B'' = []"
  by (simp add: valid_rows_def dropna_def row_at_def get_features_def Let_def sel_def
      passthrough_def gap2_def at_time_def ffill_def fillna_def upt2)

lemma row_at_gap2: "NaN \<in> set (row_at (get_features passthrough gap2 ''A'') 0)"
  by (simp add: row_at_def get_features_def Let_def sel_def
      passthrough_def gap2_def at_time_def ffill_def fillna_def upt2)

lemma predict_loop_gap2:
  "predict_loop (\<lambda>m X. Inr (map (\<lambda>r. Fin 1) X)) [''A'' \<mapsto> get_model 5, ''B'' \<mapsto> get_model 5]
     passthrough gap2 [''A'', ''B''] (zeros_like gap2, [])
   = Inr ((zeros_like gap2)(''A'' := [Fin 0, Fin 1]), [])"
proof -
  have n: "ntime gap2 = Suc (Suc 0)" by (simp add: gap2_def numeral_2_eq_2)
  show ?thesis
    by (simp add: predict_loop_step valid_rows_gap2_A valid_rows_gap2_B predict_and_write_def
        assign_def zeros_like_def n fun_eq_iff)
qed

theorem predict_loop_writes_valid_rows_only_witness:
  "predict_loop (\<lambda>m X. Inr (map (\<lambda>r. Fin 1) X)) [''A'' \<mapsto> get_model 5, ''B'' \<mapsto> get_model 5]
     passthrough gap2 [''A'', ''B''] (zeros_like gap2, [])
     = Inr ((zeros_like gap2)(''A'' := [Fin 0, Fin 1]), []) \<and>
   NaN \<in> set (row_at (get_features passthrough gap2 ''A'') 0) \<and>
   valid_rows passthrough gap2 ''B'' = [] \<and>
   ((zeros_like gap2)(''A'' := [Fin 0, Fin 1])) ''A'' ! 0 = zeros_like gap2 ''A'' ! 0 \<and>
   ((zeros_like gap2)(''A'' := [Fin 0, Fin 1])) ''B'' = zeros_like gap2 ''B''"
  using predict_loop_writes_valid_rows_only [OF predict_loop_gap2, of "''A''" 0]
    predict_loop_writes_valid_rows_only [OF predict_loop_gap2, of "''B''" 0]
    predict_loop_gap2 row_at_gap2 valid_rows_gap2_B
  by simp

lemma train_model_flat_prices_AC:
  "\<exists>ms lg. train_model knn_fit passthrough (flat_prices 10 [''A'', ''C''] ''C'') = Inr (ms, lg)
     \<and> ms ''A'' \<noteq> None \<and> ms ''C'' = None"
  by (simp add: train_model_result trained_def fit_outcome_flat_prices)

theorem predict_weights_zero_without_model_witness:
  "\<exists>ms lg w lg'.
     train_model knn_fit passthrough (flat_prices 10 [''A'', ''C''] ''C'') = Inr (ms, lg) \<and>
     ms ''A'' \<noteq> None \<and> ms ''C'' = None \<and>
     predict_weights knn_predict ms passthrough (flat_prices 10 [''A'', ''C''] ''C'')
       = Inr (w, lg') \<and>
     length (w ''A'') = 10 \<and> w ''C'' = replicate 10 (Fin 0)"
proof -
  let ?d = "flat_prices 10 [''A'', ''C''] ''C''"
  from train_model_flat_prices_AC obtain ms lg where
    t: "train_model knn_fit passthrough ?d = Inr (ms, lg)" and a: "ms ''A'' \<noteq> None"
    and c: "ms ''C'' = None"
    by blast
  from predict_loop_returns [of knn_predict ms passthrough ?d "assets ?d" "zeros_like ?d" "[]"]
    predict_and_write_as_knn
  obtain w lg' where p: "predict_weights knn_predict ms passthrough ?d = Inr (w, lg')"
    by (auto simp: predict_weights_def)
  from predict_weights_zero_without_model [OF p] c
  have "length (w ''A'') = 10" "w ''C'' = replicate 10 (Fin 0)" by simp_all
  with t a c p show ?thesis by blast
qed

lemma fit_as_knn_knn_fit: "fit_as_knn knn_fit"
  by (simp add: fit_as_knn_def)

lemma predict_as_knn_knn_predict: "predict_as_knn knn_predict"
  by (simp add: predict_as_knn_def)

theorem predict_weights_in_unit_interval_witness:
  "fit_as_knn knn_fit \<and> predict_as_knn knn_predict \<and>
   (\<exists>ms lg w lg'.
     train_model knn_fit passthrough (flat_prices 10 [''A'', ''C''] ''C'') = Inr (ms, lg) \<and>
     ms ''A'' \<noteq> None \<and>
     predict_weights knn_predict ms passthrough (flat_prices 10 [''A'', ''C''] ''C'')
       = Inr (w, lg') \<and>
     list_all in_unit (w ''A''))"
proof -
  let ?d = "flat_prices 10 [''A'', ''C''] ''C''"
  from train_model_flat_prices_AC obtain ms lg where
    t: "train_model knn_fit passthrough ?d = Inr (ms, lg)" and a: "ms ''A'' \<noteq> None"
    by blast
  from predict_loop_returns [of knn_predict ms passthrough ?d "assets ?d" "zeros_like ?d" "[]"]
    predict_and_write_as_knn
  obtain w lg' where p: "predict_weights knn_predict ms passthrough ?d = Inr (w, lg')"
    by (auto simp: predict_weights_def)
  from predict_weights_in_unit_interval
    [OF fit_as_knn_knn_fit predict_as_knn_knn_predict t p]
  have "list_all in_unit (w ''A'')" by (simp add: list_all_iff)
  with t a p fit_as_knn_knn_fit predict_as_knn_knn_predict show ?thesis by blast
qed

lemma train_global_loop_interrupt:
  assumes "fit_outcome fit L d a = Some (Inl KeyboardInterrupt)"
  shows "train_global_loop fit L d (a # rest) (ms, lg) = Inl KeyboardInterrupt"
  using assms
  by (auto simp: fit_outcome_def aligned_def valid_rows_def Let_def
      split: prod.splits if_splits)

end
